theory Spec2Isabelle
  imports Main "HOL-Library.Multiset" "HOL-Library.Sublist"
begin

section \<open>Garmin synchronisation: a shallow embedding of \<open>scripts/garmin_sync.py\<close>\<close>

text \<open>
  The development follows the Python source function by function.  Exceptions are values
  of the datatype \<open>error\<close>; every network or file operation asks an environment for its
  outcome and appends itself to a log, so that the number and order of the calls a function
  makes can be read off the state it returns.
\<close>

subsection \<open>Strings\<close>

text \<open>
  \<open>s.split(c)\<close> for a one-character separator: the pieces between the occurrences of the
  separator, never an empty list.
\<close>

fun split_chr :: "char \<Rightarrow> string \<Rightarrow> string list" where
  "split_chr c [] = [[]]"
| "split_chr c (x # xs) =
     (if x = c then [] # split_chr c xs
      else (case split_chr c xs of
              [] \<Rightarrow> [[x]]
            | w # ws \<Rightarrow> (x # w) # ws))"

text \<open>\<open>s.startswith(".")\<close>\<close>

fun startswith_dot :: "string \<Rightarrow> bool" where
  "startswith_dot [] = False"
| "startswith_dot (x # xs) = (x = CHR ''.'')"

text \<open>
  Lines 412 to 414: \<open>[i.split(".")[0] for i in os.listdir(GPX_FOLDER) if not i.startswith(".")]\<close>.
  The argument is the directory listing.  \<open>hd\<close> stands for the index \<open>[0]\<close>, which cannot
  fail because \<open>split\<close> never returns an empty list (lemma \<open>split_chr_not_Nil\<close>).
\<close>

definition downloaded_ids :: "string list \<Rightarrow> string list" where
  "downloaded_ids listing =
     map (\<lambda>i. hd (split_chr CHR ''.'' i)) (filter (\<lambda>i. \<not> startswith_dot i) listing)"

text \<open>
  Line 419: \<open>list(set(activity_ids) - set(downloaded_ids))\<close>.  A Python set holds each
  element once and is enumerated in an order of its own; \<open>order\<close> is that enumeration,
  an arbitrary rearrangement of the elements.
\<close>

definition to_generate_garmin_ids ::
  "(string list \<Rightarrow> string list) \<Rightarrow> string list \<Rightarrow> string list \<Rightarrow> string list" where
  "to_generate_garmin_ids order activity_ids downloaded =
     order (remdups (filter (\<lambda>i. i \<notin> set downloaded) activity_ids))"

text \<open>The specification's words: the name stem is everything before the first dot, and an
  entry is hidden when its name starts with a dot.\<close>

definition name_stem :: "string \<Rightarrow> string" where
  "name_stem name = takeWhile (\<lambda>x. x \<noteq> CHR ''.'') name"

definition hidden :: "string \<Rightarrow> bool" where
  "hidden name = (name \<noteq> [] \<and> hd name = CHR ''.'')"

definition local_id_set :: "string list \<Rightarrow> string set" where
  "local_id_set listing = {name_stem e |e. e \<in> set listing \<and> \<not> hidden e}"

definition rearranges :: "(string list \<Rightarrow> string list) \<Rightarrow> bool" where
  "rearranges order = (\<forall>xs. mset (order xs) = mset xs)"

subsection \<open>Exceptions, records of the remote service, and the environment\<close>

datatype error =
    GarminConnectConnectionError
  | GarminConnectAuthenticationError
  | GarminConnectTooManyRequestsError
  | RequestError
  | HTTPStatusError
  | JSONDecodeError
  | KeyError
  | FailedToUpload
  | BadZipFile
  | OSError
  | ValueError

text \<open>
  \<open>RequestError\<close> is any exception raised by the HTTP library while it sends a request,
  \<open>HTTPStatusError\<close> the exception of \<open>raise_for_status()\<close>, \<open>JSONDecodeError\<close> the one of
  \<open>response.json()\<close>, and \<open>FailedToUpload\<close> is \<open>Exception("failed to upload")\<close>.
\<close>

datatype json_value = JInt int | JStr string

text \<open>Python's \<open>str\<close> on an identifier: decimal digits for an integer, the string itself
  for a string.  \<open>digit_chr\<close> is only applied to numbers below 10.\<close>

definition digit_chr :: "nat \<Rightarrow> char" where
  "digit_chr d = ''0123456789'' ! d"

function str_nat :: "nat \<Rightarrow> string" where
  "str_nat n = (if n < 10 then [digit_chr n] else str_nat (n div 10) @ [digit_chr (n mod 10)])"
  by pat_completeness auto
termination
  by (relation "measure (\<lambda>n. n)") auto

declare str_nat.simps [simp del]

definition str_int :: "int \<Rightarrow> string" where
  "str_int i = (if i < 0 then CHR ''-'' # str_nat (nat (- i)) else str_nat (nat i))"

fun py_str :: "json_value \<Rightarrow> string" where
  "py_str (JInt i) = str_int i"
| "py_str (JStr s) = s"

text \<open>
  An activity record of the listing.  \<open>activityId\<close> is \<open>None\<close> when the dictionary has no
  such key.  \<open>typeKey\<close> is the value of \<open>x["activityType"]["typeKey"]\<close>, and \<open>None\<close> when that
  expression raises \<open>KeyError\<close>.
\<close>

record activity =
  activityId :: "json_value option"
  typeKey :: "string option"

text \<open>
  What the program reads of an HTTP response: the status code; the group matched by
  \<open>re.search(r'"(https:[^"]+?ticket=[^"]+)"', response.text)\<close>, \<open>None\<close> without a match; the
  value of \<open>response.json()\<close> on a listing, \<open>None\<close> when decoding raises; the \<open>successes\<close>
  of \<open>res.json()["detailedImportResult"]\<close> (one \<open>internalId\<close> per entry), \<open>None\<close> when that
  expression raises; the bytes of \<open>response.read()\<close>; and the member names of those bytes
  read as a zip container, \<open>None\<close> when they are not one.
\<close>

record response =
  status_code :: nat
  ticket :: "string option"
  json_body :: "activity list option"
  detailedImportResult :: "json_value list option"
  content :: string
  zip_names :: "string list option"

datatype url =
    Activities_search nat nat bool
  | Download_files string
  | Download_export string string

text \<open>
  \<open>Activities_search start limit only_running\<close> is the listing URL of line 190, with
  \<open>&activityType=running\<close> appended when the flag is set; \<open>Download_files id\<close> and
  \<open>Download_export file_type id\<close> are the two URLs of \<open>download_activity\<close>.
\<close>

datatype call =
    Cf_get_signin
  | Cf_post_signin
  | Cf_get string
  | Get url
  | Post_upload string
  | Put_activity json_value string
  | Open_wb string
  | Write_file string
  | Extract string
  | Print_exception
  | Make_activities_file_only
  | Aclose

datatype outcome = Raised | Returned response

text \<open>
  The environment answers every call from the calls made so far: the remote service, the
  network and the disk may behave in any way.  \<open>set_order\<close> is the enumeration order of
  Python sets.
\<close>

record world =
  reply :: "call list \<Rightarrow> call \<Rightarrow> outcome"
  set_order :: "string list \<Rightarrow> string list"

text \<open>The attributes of the \<open>Garmin\<close> object that the functions below read.\<close>

datatype activity_types = Type_list "string list" | Type_str string

record garmin =
  is_only_running :: bool
  file_type :: string
  sync_type :: string
  activity_types :: activity_types

text \<open>
  The mutable part: \<open>self.is_login\<close>, the calls made so far, and the names of the entries of
  \<open>GPX_FOLDER\<close>.
\<close>

record state =
  is_login :: bool
  calls :: "call list"
  gpx_folder :: "string list"

type_synonym 'a result = "(error + 'a) \<times> state"

definition perform :: "world \<Rightarrow> call \<Rightarrow> state \<Rightarrow> outcome \<times> state" where
  "perform w c st = (reply w (calls st) c, st\<lparr>calls := calls st @ [c]\<rparr>)"

definition record_call :: "call \<Rightarrow> state \<Rightarrow> state" where
  "record_call c st = st\<lparr>calls := calls st @ [c]\<rparr>"

text \<open>\<open>raise_for_status()\<close> of the requests library raises on 4xx and 5xx, the one of httpx
  on every status outside 2xx.\<close>

definition requests_raises :: "nat \<Rightarrow> bool" where
  "requests_raises s = (400 \<le> s \<and> s < 600)"

definition httpx_raises :: "nat \<Rightarrow> bool" where
  "httpx_raises s = (\<not> (200 \<le> s \<and> s < 300))"

subsection \<open>\<open>Garmin.login\<close>\<close>

text \<open>Lines 131 to 139, the body of the first \<open>try\<close>.\<close>

definition signin :: "world \<Rightarrow> state \<Rightarrow> response result" where
  "signin w st =
     (case perform w Cf_get_signin st of
        (Raised, st1) \<Rightarrow> (Inl RequestError, st1)
      | (Returned _, st1) \<Rightarrow>
          (case perform w Cf_post_signin st1 of
             (Raised, st2) \<Rightarrow> (Inl RequestError, st2)
           | (Returned response, st2) \<Rightarrow> (Inr response, st2)))"

text \<open>Lines 149 to 154, the body of the second \<open>try\<close>.\<close>

definition ticket_exchange :: "world \<Rightarrow> string \<Rightarrow> state \<Rightarrow> unit result" where
  "ticket_exchange w response_url st =
     (case perform w (Cf_get response_url) st of
        (Raised, st1) \<Rightarrow> (Inl RequestError, st1)
      | (Returned response, st1) \<Rightarrow>
          if status_code response = 429 then (Inl GarminConnectTooManyRequestsError, st1)
          else if requests_raises (status_code response) then (Inl HTTPStatusError, st1)
          else (Inr (), st1\<lparr>is_login := True\<rparr>))"

text \<open>
  \<open>login\<close>: each \<open>try\<close> has the handler \<open>except Exception as err: raise
  GarminConnectConnectionError("Error connecting") from err\<close>, which receives whatever its
  body raised.  Line 147 removes the backslashes from the matched URL.
\<close>

definition login :: "world \<Rightarrow> state \<Rightarrow> unit result" where
  "login w st =
     (case signin w st of
        (Inl err, st1) \<Rightarrow> (Inl GarminConnectConnectionError, st1)
      | (Inr response, st1) \<Rightarrow>
          (case ticket response of
             None \<Rightarrow> (Inl GarminConnectAuthenticationError, st1)
           | Some m \<Rightarrow>
               (case ticket_exchange w (filter (\<lambda>x. x \<noteq> CHR 0x5C) m) st1 of
                  (Inl err, st2) \<Rightarrow> (Inl GarminConnectConnectionError, st2)
                | (Inr u, st2) \<Rightarrow> (Inr u, st2))))"

subsection \<open>\<open>Garmin.fetch_data\<close>\<close>

text \<open>Lines 163 to 168, the body of the \<open>try\<close>.\<close>

definition fetch_attempt :: "world \<Rightarrow> url \<Rightarrow> state \<Rightarrow> activity list result" where
  "fetch_attempt w u st =
     (case perform w (Get u) st of
        (Raised, st1) \<Rightarrow> (Inl RequestError, st1)
      | (Returned response, st1) \<Rightarrow>
          if status_code response = 429 then (Inl GarminConnectTooManyRequestsError, st1)
          else if httpx_raises (status_code response) then (Inl HTTPStatusError, st1)
          else (case json_body response of
                  None \<Rightarrow> (Inl JSONDecodeError, st1)
                | Some v \<Rightarrow> (Inr v, st1)))"

function fetch_data :: "world \<Rightarrow> url \<Rightarrow> bool \<Rightarrow> state \<Rightarrow> activity list result" where
  "fetch_data w u retrying st =
     (case fetch_attempt w u st of
        (Inr v, st1) \<Rightarrow> (Inr v, st1)
      | (Inl err, st1) \<Rightarrow>
          if retrying then (Inl GarminConnectConnectionError, st1)
          else (case login w st1 of
                  (Inl e, st2) \<Rightarrow> (Inl e, st2)
                | (Inr _, st2) \<Rightarrow> fetch_data w u True st2))"
  by pat_completeness auto
termination
  by (relation "measure (\<lambda>(w, u, retrying, st). if retrying then 0 else 1)") auto

declare fetch_data.simps [simp del]

subsection \<open>\<open>Garmin.get_activities\<close>\<close>

text \<open>
  Line 195, \<open>len(self.activity_types) == 0 or self.activity_types[0] == ""\<close>.  The attribute
  is a list of strings (the declared default, or the command-line option) or a single
  string (the fall-back \<open>"running"\<close> of line 385); the first character of a non-empty string
  is never the empty string.
\<close>

fun filter_disabled :: "activity_types \<Rightarrow> bool" where
  "filter_disabled (Type_list []) = True"
| "filter_disabled (Type_list (t # ts)) = (t = [])"
| "filter_disabled (Type_str s) = (s = [])"

text \<open>\<open>k in self.activity_types\<close>: membership in a list, containment in a string.\<close>

fun type_in :: "string \<Rightarrow> activity_types \<Rightarrow> bool" where
  "type_in k (Type_list ts) = (k \<in> set ts)"
| "type_in k (Type_str s) = sublist k s"

text \<open>Lines 198 to 202, the list comprehension.\<close>

fun select_activity_types :: "activity_types \<Rightarrow> activity list \<Rightarrow> error + activity list" where
  "select_activity_types ts [] = Inr []"
| "select_activity_types ts (x # xs) =
     (case typeKey x of
        None \<Rightarrow> Inl KeyError
      | Some k \<Rightarrow>
          (case select_activity_types ts xs of
             Inl e \<Rightarrow> Inl e
           | Inr ys \<Rightarrow> Inr (if type_in k ts then x # ys else ys)))"

definition activities_url :: "garmin \<Rightarrow> nat \<Rightarrow> nat \<Rightarrow> url" where
  "activities_url c start limit = Activities_search start limit (is_only_running c)"

definition get_activities :: "world \<Rightarrow> garmin \<Rightarrow> nat \<Rightarrow> nat \<Rightarrow> state \<Rightarrow> activity list result" where
  "get_activities w c start limit st =
     (case (if \<not> is_login st then login w st else (Inr (), st)) of
        (Inl e, st1) \<Rightarrow> (Inl e, st1)
      | (Inr _, st1) \<Rightarrow>
          (case fetch_data w (activities_url c start limit) False st1 of
             (Inl e, st2) \<Rightarrow> (Inl e, st2)
           | (Inr activities, st2) \<Rightarrow>
               if filter_disabled (activity_types c) then (Inr activities, st2)
               else (select_activity_types (activity_types c) activities, st2)))"

subsection \<open>\<open>get_activity_id_list\<close>\<close>

text \<open>Lines 300 and 308: \<open>list(map(lambda a: str(a.get("activityId", "")), activities))\<close>.\<close>

definition dict_get_activityId :: "activity \<Rightarrow> json_value \<Rightarrow> json_value" where
  "dict_get_activityId a d = (case activityId a of None \<Rightarrow> d | Some v \<Rightarrow> v)"

definition ids_of :: "activity list \<Rightarrow> string list" where
  "ids_of activities = map (\<lambda>a. py_str (dict_get_activityId a (JStr ''''))) activities"

text \<open>
  The recursion has no bound of its own: it goes on for as long as the pages it is given
  are not empty.  The result is \<open>None\<close> when it never returns.
\<close>

partial_function (option) get_activity_id_list ::
  "world \<Rightarrow> garmin \<Rightarrow> nat \<Rightarrow> state \<Rightarrow> (string list result) option" where
  "get_activity_id_list w c start st =
     (if sync_type c = ''all'' then
        (case get_activities w c start 100 st of
           (Inl e, st1) \<Rightarrow> Some (Inl e, st1)
         | (Inr activities, st1) \<Rightarrow>
             if length activities > 0 then
               Option.bind (get_activity_id_list w c (start + 100) st1)
                 (\<lambda>(r, st2).
                    Some (case r of Inl e \<Rightarrow> Inl e | Inr rest \<Rightarrow> Inr (ids_of activities @ rest), st2))
             else Some (Inr [], st1))
      else
        (case get_activities w c start 1 st of
           (Inl e, st1) \<Rightarrow> Some (Inl e, st1)
         | (Inr activities, st1) \<Rightarrow>
             if length activities > 0 then Some (Inr (ids_of activities), st1)
             else Some (Inr [], st1)))"

text \<open>The specification's words for one identifier: \<open>str\<close> of the \<open>activityId\<close> field, the
  empty string when the record has no such key.\<close>

definition identifier_of :: "activity \<Rightarrow> string" where
  "identifier_of a = (case activityId a of None \<Rightarrow> '''' | Some v \<Rightarrow> py_str v)"

subsection \<open>\<open>Garmin.download_activity\<close> and \<open>save_garmin_activity\<close>\<close>

definition download_url :: "garmin \<Rightarrow> string \<Rightarrow> url" where
  "download_url c activity_id =
     (if file_type c = ''fit'' then Download_files activity_id
      else Download_export (file_type c) activity_id)"

definition download_activity :: "world \<Rightarrow> garmin \<Rightarrow> string \<Rightarrow> state \<Rightarrow> response result" where
  "download_activity w c activity_id st =
     (case perform w (Get (download_url c activity_id)) st of
        (Raised, st1) \<Rightarrow> (Inl RequestError, st1)
      | (Returned response, st1) \<Rightarrow>
          if httpx_raises (status_code response) then (Inl HTTPStatusError, st1)
          else (Inr response, st1))"

text \<open>
  A file or archive member created in \<open>GPX_FOLDER\<close> becomes an entry of the listing.  A
  name with a path separator is not an entry of the folder itself; subdirectories are not
  part of the model.
\<close>

definition add_entry :: "string \<Rightarrow> state \<Rightarrow> state" where
  "add_entry name st =
     (if CHR ''/'' \<in> set name then st
      else st\<lparr>gpx_folder := List.insert name (gpx_folder st)\<rparr>)"

text \<open>\<open>ZipFile(BytesIO(file_data)).extractall(GPX_FOLDER)\<close>: one member after the other.\<close>

fun extractall :: "world \<Rightarrow> string list \<Rightarrow> state \<Rightarrow> unit result" where
  "extractall w [] st = (Inr (), st)"
| "extractall w (m # ms) st =
     (case perform w (Extract m) st of
        (Raised, st1) \<Rightarrow> (Inl OSError, st1)
      | (Returned _, st1) \<Rightarrow> extractall w ms (add_entry m st1))"

text \<open>Lines 288 and 289: \<open>aiofiles.open(file_path, "wb")\<close> creates the file, \<open>fb.write\<close> fills it.\<close>

definition write_activity :: "world \<Rightarrow> string \<Rightarrow> state \<Rightarrow> unit result" where
  "write_activity w file_name st =
     (case perform w (Open_wb file_name) st of
        (Raised, st1) \<Rightarrow> (Inl OSError, st1)
      | (Returned _, st1) \<Rightarrow>
          (case perform w (Write_file file_name) (add_entry file_name st1) of
             (Raised, st2) \<Rightarrow> (Inl OSError, st2)
           | (Returned _, st2) \<Rightarrow> (Inr (), st2)))"

text \<open>Lines 283 to 289, the body of the \<open>try\<close>.\<close>

definition download_and_store :: "world \<Rightarrow> garmin \<Rightarrow> string \<Rightarrow> state \<Rightarrow> unit result" where
  "download_and_store w c activity_id st =
     (case download_activity w c activity_id st of
        (Inl e, st1) \<Rightarrow> (Inl e, st1)
      | (Inr file_data, st1) \<Rightarrow>
          if file_type c = ''fit'' then
            (case zip_names file_data of
               None \<Rightarrow> (Inl BadZipFile, st1)
             | Some members \<Rightarrow> extractall w members st1)
          else write_activity w (activity_id @ ''.'' @ file_type c) st1)"

text \<open>The bare \<open>except:\<close> of line 290 prints and passes.\<close>

definition save_garmin_activity :: "world \<Rightarrow> garmin \<Rightarrow> string \<Rightarrow> state \<Rightarrow> unit result" where
  "save_garmin_activity w c activity_id st =
     (case download_and_store w c activity_id st of
        (Inl e, st1) \<Rightarrow> (Inr (), record_call Print_exception st1)
      | (Inr u, st1) \<Rightarrow> (Inr (), st1))"

subsection \<open>\<open>gather_with_concurrency\<close>\<close>

text \<open>
  A coroutine that has not started is a function of the state.  \<open>asyncio.gather\<close> without
  \<open>return_exceptions\<close> returns the list of results, or raises the first exception; here the
  coroutines run to their end one after the other, in the order of the list.
\<close>

type_synonym 'a task = "state \<Rightarrow> 'a result"

fun gather :: "'a task list \<Rightarrow> state \<Rightarrow> 'a list result" where
  "gather [] st = (Inr [], st)"
| "gather (t # ts) st =
     (case t st of
        (r, st1) \<Rightarrow>
          (case gather ts st1 of
             (rs, st2) \<Rightarrow>
               (case r of
                  Inl e \<Rightarrow> (Inl e, st2)
                | Inr x \<Rightarrow> (case rs of Inl e \<Rightarrow> (Inl e, st2) | Inr xs \<Rightarrow> (Inr (x # xs), st2)))))"

text \<open>
  \<open>asyncio.Semaphore(n)\<close> raises \<open>ValueError\<close> for a negative \<open>n\<close>.  With \<open>n = 0\<close> no task
  ever passes \<open>async with semaphore\<close>, and the call does not return (\<open>None\<close>).
\<close>

definition gather_with_concurrency :: "int \<Rightarrow> 'a task list \<Rightarrow> state \<Rightarrow> ('a list result) option" where
  "gather_with_concurrency n tasks st =
     (if n < 0 then Some (Inl ValueError, st)
      else if n = 0 \<and> tasks \<noteq> [] then None
      else Some (gather tasks st))"

text \<open>
  The admission protocol of \<open>sem_task\<close>, as a transition system.  Each task is before
  \<open>async with semaphore\<close> (\<open>Waiting\<close>), inside it awaiting the wrapped coroutine (\<open>Running\<close>),
  or past it (\<open>Finished\<close>).  Acquiring needs a positive semaphore value and decrements it;
  leaving the block increments it.  The scheduler may pick any enabled task.
\<close>

datatype phase = Waiting | Running | Finished

record gather_state =
  sem_value :: nat
  phases :: "phase list"

definition gather_start :: "nat \<Rightarrow> 'a list \<Rightarrow> gather_state" where
  "gather_start n tasks = \<lparr>sem_value = n, phases = map (\<lambda>t. Waiting) tasks\<rparr>"

inductive sem_task_step :: "gather_state \<Rightarrow> gather_state \<Rightarrow> bool" where
  acquire:
    "i < length (phases s) \<Longrightarrow> phases s ! i = Waiting \<Longrightarrow> 0 < sem_value s \<Longrightarrow>
     sem_task_step s \<lparr>sem_value = sem_value s - 1, phases = (phases s)[i := Running]\<rparr>"
| release:
    "i < length (phases s) \<Longrightarrow> phases s ! i = Running \<Longrightarrow>
     sem_task_step s \<lparr>sem_value = sem_value s + 1, phases = (phases s)[i := Finished]\<rparr>"

definition in_flight :: "gather_state \<Rightarrow> nat" where
  "in_flight s = length (filter (\<lambda>p. p = Running) (phases s))"

subsection \<open>\<open>download_new_activities\<close>\<close>

text \<open>
  Lines 419 to 429, from the identifiers found on disk and the identifiers listed.
  \<open>make_activities_file_only\<close> is another module's; its call is recorded.
\<close>

definition download_batch ::
  "world \<Rightarrow> garmin \<Rightarrow> string list \<Rightarrow> string list \<Rightarrow> state \<Rightarrow> (unit result) option" where
  "download_batch w c downloaded activity_ids st =
     (let to_generate = to_generate_garmin_ids (set_order w) activity_ids downloaded in
      case gather_with_concurrency 10 (map (save_garmin_activity w c) to_generate) st of
        None \<Rightarrow> None
      | Some (Inl e, st1) \<Rightarrow> Some (Inl e, st1)
      | Some (Inr _, st1) \<Rightarrow>
          Some (Inr (), record_call Aclose (record_call Make_activities_file_only st1)))"

text \<open>Lines 408 to 429.\<close>

definition download_new_activities :: "world \<Rightarrow> garmin \<Rightarrow> state \<Rightarrow> (unit result) option" where
  "download_new_activities w c st =
     (case login w st of
        (Inl e, st1) \<Rightarrow> Some (Inl e, st1)
      | (Inr _, st1) \<Rightarrow>
          (let downloaded = downloaded_ids (gpx_folder st1) in
           case get_activity_id_list w c 0 st1 of
             None \<Rightarrow> None
           | Some (Inl e, st2) \<Rightarrow> Some (Inl e, st2)
           | Some (Inr activity_ids, st2) \<Rightarrow> download_batch w c downloaded activity_ids st2))"

text \<open>The admission protocol of the batch of line 424, with its constant 10.\<close>

definition download_batch_start :: "string list \<Rightarrow> gather_state" where
  "download_batch_start to_generate = gather_start 10 to_generate"

subsection \<open>\<open>Garmin.upload_activities\<close>\<close>

text \<open>
  The loop of lines 217 to 244.  An exception of the \<open>post\<close> is printed and the loop goes
  on with the next file; a response without a \<open>detailedImportResult\<close> raises
  \<open>Exception("failed to upload")\<close>; for a non-empty \<open>successes\<close> the type is corrected with a
  \<open>put\<close>, whose exceptions and whose \<open>raise_for_status()\<close> are not caught.
\<close>

fun upload_loop :: "world \<Rightarrow> (string \<times> string) list \<Rightarrow> state \<Rightarrow> unit result" where
  "upload_loop w [] st = (Inr (), st)"
| "upload_loop w ((file, garmin_type) # files) st =
     (case perform w (Post_upload file) st of
        (Raised, st1) \<Rightarrow> upload_loop w files (record_call Print_exception st1)
      | (Returned res, st1) \<Rightarrow>
          (case detailedImportResult res of
             None \<Rightarrow> (Inl FailedToUpload, record_call Print_exception st1)
           | Some successes \<Rightarrow>
               (case successes of
                  [] \<Rightarrow> upload_loop w files st1
                | activity_id # _ \<Rightarrow>
                    (case perform w (Put_activity activity_id garmin_type) st1 of
                       (Raised, st2) \<Rightarrow> (Inl RequestError, st2)
                     | (Returned r, st2) \<Rightarrow>
                         if httpx_raises (status_code r) then (Inl HTTPStatusError, st2)
                         else upload_loop w files st2))))"

definition upload_activities :: "world \<Rightarrow> (string \<times> string) list \<Rightarrow> state \<Rightarrow> unit result" where
  "upload_activities w files st =
     (case (if \<not> is_login st then login w st else (Inr (), st)) of
        (Inl e, st1) \<Rightarrow> (Inl e, st1)
      | (Inr _, st1) \<Rightarrow>
          (case upload_loop w files st1 of
             (Inl e, st2) \<Rightarrow> (Inl e, st2)
           | (Inr _, st2) \<Rightarrow> (Inr (), record_call Aclose st2)))"

subsection \<open>Counting calls, and concrete environments\<close>

definition get_count :: "url \<Rightarrow> state \<Rightarrow> nat" where
  "get_count u st = count_list (calls st) (Get u)"

definition plain_response :: response where
  "plain_response = \<lparr>status_code = 200, ticket = None, json_body = None,
     detailedImportResult = None, content = '''', zip_names = None\<rparr>"

definition fresh_state :: state where
  "fresh_state = \<lparr>is_login = False, calls = [], gpx_folder = []\<rparr>"

definition logged_in_state :: state where
  "logged_in_state = \<lparr>is_login = True, calls = [], gpx_folder = []\<rparr>"

text \<open>The sign-in page yields a ticket URL, and the exchange of the ticket is answered
  with status 429.\<close>

definition rate_limited_reply :: "call list \<Rightarrow> call \<Rightarrow> outcome" where
  "rate_limited_reply h c =
     (case c of
        Cf_post_signin \<Rightarrow>
          Returned (plain_response\<lparr>ticket := Some ''https://connect.garmin.com?ticket=ST-1''\<rparr>)
      | Cf_get _ \<Rightarrow> Returned (plain_response\<lparr>status_code := 429\<rparr>)
      | _ \<Rightarrow> Returned plain_response)"

definition rate_limited_world :: world where
  "rate_limited_world = \<lparr>reply = rate_limited_reply, set_order = (\<lambda>xs. xs)\<rparr>"

text \<open>Every request of the session fails, and the sign-in page yields no ticket URL.\<close>

definition no_ticket_reply :: "call list \<Rightarrow> call \<Rightarrow> outcome" where
  "no_ticket_reply h c =
     (case c of
        Cf_get_signin \<Rightarrow> Returned plain_response
      | Cf_post_signin \<Rightarrow> Returned plain_response
      | _ \<Rightarrow> Raised)"

definition no_ticket_world :: world where
  "no_ticket_world = \<lparr>reply = no_ticket_reply, set_order = (\<lambda>xs. xs)\<rparr>"


text \<open>An identifier that can be the stem of a file name of the archive.\<close>

definition plain_id :: "string \<Rightarrow> bool" where
  "plain_id i = (i \<noteq> [] \<and> CHR ''.'' \<notin> set i \<and> CHR ''/'' \<notin> set i)"

text \<open>
  A remote service that holds the activities \<open>acts\<close> and answers every listing request of
  the client with the page it asks for.
\<close>

definition serves :: "world \<Rightarrow> garmin \<Rightarrow> activity list \<Rightarrow> bool" where
  "serves w c acts =
     (\<forall>h start limit. \<exists>r. reply w h (Get (activities_url c start limit)) = Returned r
        \<and> status_code r = 200 \<and> json_body r = Some (take limit (drop start acts)))"



text \<open>Activities numbered from 0, all of one type; a record without \<open>activityId\<close>; a remote
  service that serves a fixed list and nothing else; clients in the two modes.\<close>

definition numbered :: "string \<Rightarrow> nat \<Rightarrow> activity" where
  "numbered k i = \<lparr>activityId = Some (JInt (int i)), typeKey = Some k\<rparr>"

definition anonymous :: activity where
  "anonymous = \<lparr>activityId = None, typeKey = Some ''running''\<rparr>"

definition hundred :: "string \<Rightarrow> activity list" where
  "hundred k = map (numbered k) [0..<100]"

definition static_reply :: "activity list \<Rightarrow> call list \<Rightarrow> call \<Rightarrow> outcome" where
  "static_reply acts h c =
     (case c of
        Get (Activities_search start limit r) \<Rightarrow>
          Returned (plain_response\<lparr>json_body := Some (take limit (drop start acts))\<rparr>)
      | _ \<Rightarrow> Raised)"

definition static_world :: "activity list \<Rightarrow> world" where
  "static_world acts = \<lparr>reply = static_reply acts, set_order = (\<lambda>xs. xs)\<rparr>"

definition all_client :: "activity_types \<Rightarrow> garmin" where
  "all_client ts = \<lparr>is_only_running = False, file_type = ''gpx'', sync_type = ''all'',
     activity_types = ts\<rparr>"

definition recent_client :: "activity_types \<Rightarrow> garmin" where
  "recent_client ts = \<lparr>is_only_running = False, file_type = ''gpx'', sync_type = ''recent'',
     activity_types = ts\<rparr>"

text \<open>Two reachable states of the admission protocol.\<close>

definition one_admitted :: gather_state where
  "one_admitted = \<lparr>sem_value = 0, phases = [Running, Waiting]\<rparr>"

definition batch_one_admitted :: gather_state where
  "batch_one_admitted = \<lparr>sem_value = 9, phases = [Running, Waiting]\<rparr>"

text \<open>
  \<open>grows st st'\<close>: nothing has left the folder and no call has left the log.
  \<open>downloads_well w c i\<close>: whenever the activity \<open>i\<close> is downloaded in a single-file format,
  the request is answered with a success status and the file can be created and written.
  \<open>after_batch\<close> is the state in which the batch of tasks leaves the system.
\<close>

definition grows :: "state \<Rightarrow> state \<Rightarrow> bool" where
  "grows st st' = (set (gpx_folder st) \<subseteq> set (gpx_folder st') \<and> set (calls st) \<subseteq> set (calls st'))"

definition downloads_well :: "world \<Rightarrow> garmin \<Rightarrow> string \<Rightarrow> bool" where
  "downloads_well w c i =
     (\<forall>h. (\<exists>r. reply w h (Get (download_url c i)) = Returned r \<and> \<not> httpx_raises (status_code r))
        \<and> reply w h (Open_wb (i @ ''.'' @ file_type c)) \<noteq> Raised
        \<and> reply w h (Write_file (i @ ''.'' @ file_type c)) \<noteq> Raised)"

definition after_batch :: "world \<Rightarrow> garmin \<Rightarrow> string list \<Rightarrow> state \<Rightarrow> state" where
  "after_batch w c ids st = snd (gather (map (save_garmin_activity w c) ids) st)"

text \<open>
  A remote service that lets the client sign in, lists the activities \<open>acts\<close>, and answers
  the download of each identifier in \<open>broken\<close> with status 500 and every other download
  with 200; the zipped download of the activity \<open>i\<close> holds the one member
  \<open>i_ACTIVITY.fit\<close>; files can be created, written and extracted.
\<close>

definition ticket_response :: response where
  "ticket_response = plain_response\<lparr>ticket := Some ''https://connect.garmin.com?ticket=ST-1''\<rparr>"

definition remote_reply :: "activity list \<Rightarrow> string list \<Rightarrow> call list \<Rightarrow> call \<Rightarrow> outcome" where
  "remote_reply acts broken h c =
     (case c of
        Cf_get_signin \<Rightarrow> Returned plain_response
      | Cf_post_signin \<Rightarrow> Returned ticket_response
      | Cf_get u \<Rightarrow> Returned plain_response
      | Get (Activities_search start limit r) \<Rightarrow>
          Returned (plain_response\<lparr>json_body := Some (take limit (drop start acts))\<rparr>)
      | Get (Download_export t i) \<Rightarrow>
          if i \<in> set broken then Returned (plain_response\<lparr>status_code := 500\<rparr>)
          else Returned plain_response
      | Get (Download_files i) \<Rightarrow>
          Returned (plain_response\<lparr>zip_names := Some [i @ ''_ACTIVITY.fit'']\<rparr>)
      | Open_wb n \<Rightarrow> Returned plain_response
      | Write_file n \<Rightarrow> Returned plain_response
      | Extract n \<Rightarrow> Returned plain_response
      | _ \<Rightarrow> Raised)"

definition remote_world :: "activity list \<Rightarrow> string list \<Rightarrow> world" where
  "remote_world acts broken = \<lparr>reply = remote_reply acts broken, set_order = (\<lambda>xs. xs)\<rparr>"

definition gpx_client :: garmin where
  "gpx_client = recent_client (Type_list [''running''])"

definition fit_client :: garmin where
  "fit_client = gpx_client\<lparr>file_type := ''fit''\<rparr>"

definition archive_state :: state where
  "archive_state = \<lparr>is_login = True, calls = [], gpx_folder = [''111.gpx'', ''222.gpx'']\<rparr>"

definition sync_calls :: "call list" where
  "sync_calls = [Cf_get_signin, Cf_post_signin, Cf_get ''https://connect.garmin.com?ticket=ST-1'',
     Get (Activities_search 0 1 False), Get (Download_export ''gpx'' ''111''), Print_exception,
     Make_activities_file_only, Aclose]"

text \<open>The type correction fails: the \<open>put\<close> raises, or its \<open>raise_for_status()\<close> does.\<close>

definition put_fails :: "world \<Rightarrow> call list \<Rightarrow> json_value \<Rightarrow> string \<Rightarrow> bool" where
  "put_fails w h activity_id garmin_type =
     (case reply w h (Put_activity activity_id garmin_type) of
        Raised \<Rightarrow> True
      | Returned r \<Rightarrow> httpx_raises (status_code r))"

text \<open>An upload service that cannot be reached for one file, answers the upload of another
  with status 500 and no import result, and rejects the correction to one activity type.\<close>

definition upload_reply :: "call list \<Rightarrow> call \<Rightarrow> outcome" where
  "upload_reply h c =
     (case c of
        Post_upload file \<Rightarrow>
          if file = ''unreachable'' then Raised
          else if file = ''rejected'' then Returned (plain_response\<lparr>status_code := 500\<rparr>)
          else Returned (plain_response\<lparr>detailedImportResult := Some [JInt 7]\<rparr>)
      | Put_activity activity_id garmin_type \<Rightarrow>
          if garmin_type = ''hiking'' then Returned (plain_response\<lparr>status_code := 500\<rparr>)
          else Returned plain_response
      | _ \<Rightarrow> Raised)"

definition upload_world :: world where
  "upload_world = \<lparr>reply = upload_reply, set_order = (\<lambda>xs. xs)\<rparr>"

text \<open>The state of the admission protocol in which every task is past the block.\<close>

definition gather_done :: "nat \<Rightarrow> 'a list \<Rightarrow> gather_state" where
  "gather_done n tasks = \<lparr>sem_value = n, phases = map (\<lambda>t. Finished) tasks\<rparr>"

section \<open>Properties\<close>

subsection \<open>Reconciliation\<close>

lemma split_chr_not_Nil: "split_chr c s \<noteq> []"
  by (induction s) (auto split: list.splits)

lemma hd_split_chr: "hd (split_chr c s) = takeWhile (\<lambda>x. x \<noteq> c) s"
proof (induction s)
  case Nil
  show ?case by simp
next
  case (Cons x xs)
  then show ?case
    using split_chr_not_Nil [of c xs] by (auto split: list.splits)
qed

lemma startswith_dot_hidden: "startswith_dot s = hidden s"
  by (cases s) (simp_all add: hidden_def)

lemma set_downloaded_ids: "set (downloaded_ids listing) = local_id_set listing"
  by (auto simp: downloaded_ids_def local_id_set_def name_stem_def hd_split_chr
      startswith_dot_hidden)

lemma rearranges_set: "rearranges f \<Longrightarrow> set (f xs) = set xs"
  unfolding rearranges_def by (metis set_mset_mset)

lemma rearranges_distinct: "rearranges f \<Longrightarrow> distinct (f xs) = distinct xs"
  unfolding rearranges_def by (metis mset_eq_imp_distinct_iff)

text \<open>
  Claim C1.  For every remote identifier list and every directory listing, the new-work
  list holds exactly the remote identifiers that are not the name stem of a non-hidden
  directory entry, and holds none of them twice, whatever order the set is enumerated in.
\<close>

theorem new_work_is_set_difference:
  assumes "rearranges order"
  shows "set (to_generate_garmin_ids order R (downloaded_ids L)) = set R - local_id_set L
       \<and> distinct (to_generate_garmin_ids order R (downloaded_ids L))"
  using assms
  by (auto simp: to_generate_garmin_ids_def rearranges_set rearranges_distinct
      set_downloaded_ids)

theorem new_work_is_set_difference_witness:
  "rearranges rev
   \<and> set (to_generate_garmin_ids rev [''333'', ''111'', ''333'']
            (downloaded_ids [''111.gpx'', ''222.gpx'', ''.DS_Store'']))
     = set [''333'', ''111'', ''333''] - local_id_set [''111.gpx'', ''222.gpx'', ''.DS_Store'']
   \<and> to_generate_garmin_ids rev [''333'', ''111'', ''333'']
        (downloaded_ids [''111.gpx'', ''222.gpx'', ''.DS_Store'']) = [''333'']"
proof -
  have r: "rearranges rev"
    by (simp add: rearranges_def)
  have v: "to_generate_garmin_ids rev [''333'', ''111'', ''333'']
        (downloaded_ids [''111.gpx'', ''222.gpx'', ''.DS_Store'']) = [''333'']"
    by (simp add: to_generate_garmin_ids_def downloaded_ids_def)
  show ?thesis
    using r v new_work_is_set_difference [OF r, of "[''333'', ''111'', ''333'']"
        "[''111.gpx'', ''222.gpx'', ''.DS_Store'']"]
    by simp
qed

subsection \<open>Login\<close>

lemma login_never_raises_TooManyRequests:
  "fst (login w st) \<noteq> Inl GarminConnectTooManyRequestsError"
  by (auto simp: login_def split: prod.splits sum.splits option.splits)

lemma login_results:
  "fst (login w st) = Inl GarminConnectConnectionError
   \<or> fst (login w st) = Inl GarminConnectAuthenticationError
   \<or> fst (login w st) = Inr ()"
  by (auto simp: login_def split: prod.splits sum.splits option.splits)

lemma login_transport_failure:
  "signin w st = (Inl e, st1) \<Longrightarrow> login w st = (Inl GarminConnectConnectionError, st1)"
  by (simp add: login_def)

lemma login_without_ticket:
  "signin w st = (Inr response, st1) \<Longrightarrow> ticket response = None \<Longrightarrow>
   login w st = (Inl GarminConnectAuthenticationError, st1)"
  by (simp add: login_def)

lemma login_sets_is_login: "login w st = (Inr u, st') \<Longrightarrow> is_login st'"
  by (auto simp: login_def ticket_exchange_def perform_def
      split: prod.splits sum.splits option.splits outcome.splits if_splits)

lemma login_calls: "\<exists>l. calls (snd (login w st)) = calls st @ l \<and> (\<forall>u. Get u \<notin> set l)"
  by (auto simp: login_def signin_def ticket_exchange_def perform_def
      split: prod.splits sum.splits option.splits outcome.splits if_splits)

lemma login_get_count: "get_count u (snd (login w st)) = get_count u st"
  using login_calls [of w st] by (auto simp: get_count_def)

text \<open>
  Claim C4.  \<open>login\<close> is to raise \<open>GarminConnectTooManyRequestsError\<close> when the exchange of
  the ticket is answered with status 429.  At that input the exception raised on line 152
  is caught by the handler of line 155, and \<open>login\<close> raises
  \<open>GarminConnectConnectionError\<close>; the three requests have been made and \<open>is_login\<close> is
  still false.
\<close>

theorem login_status_429_raises_connection_error:
  "login rate_limited_world fresh_state =
     (Inl GarminConnectConnectionError,
      \<lparr>is_login = False,
       calls = [Cf_get_signin, Cf_post_signin, Cf_get ''https://connect.garmin.com?ticket=ST-1''],
       gpx_folder = []\<rparr>)"
  by (simp add: login_def signin_def ticket_exchange_def perform_def rate_limited_world_def
      rate_limited_reply_def fresh_state_def plain_response_def)

subsection \<open>The authenticated fetch\<close>

lemma fetch_attempt_get_count: "get_count u (snd (fetch_attempt w u st)) = Suc (get_count u st)"
  by (auto simp: fetch_attempt_def perform_def get_count_def
      split: outcome.splits option.splits)

lemma fetch_data_unrolled:
  "fetch_data w u False st =
     (case fetch_attempt w u st of
        (Inr v, st1) \<Rightarrow> (Inr v, st1)
      | (Inl err, st1) \<Rightarrow>
          (case login w st1 of
             (Inl e, st2) \<Rightarrow> (Inl e, st2)
           | (Inr _, st2) \<Rightarrow>
               (case fetch_attempt w u st2 of
                  (Inr v, st3) \<Rightarrow> (Inr v, st3)
                | (Inl err2, st3) \<Rightarrow> (Inl GarminConnectConnectionError, st3))))"
  by (simp add: fetch_data.simps split: prod.splits sum.splits)

text \<open>
  Claim C3, as amended.  \<open>fetch_data\<close> sends the GET at most twice.  When the first attempt
  fails it calls \<open>login\<close>; an exception of \<open>login\<close> is the result, with no second attempt;
  when \<open>login\<close> returns, the GET is sent once more, and a failure of that attempt is
  \<open>GarminConnectConnectionError\<close>, with no further attempt.
\<close>

theorem fetch_data_one_retry:
  "fetch_data w u False st =
     (case fetch_attempt w u st of
        (Inr v, st1) \<Rightarrow> (Inr v, st1)
      | (Inl err, st1) \<Rightarrow>
          (case login w st1 of
             (Inl e, st2) \<Rightarrow> (Inl e, st2)
           | (Inr _, st2) \<Rightarrow>
               (case fetch_attempt w u st2 of
                  (Inr v, st3) \<Rightarrow> (Inr v, st3)
                | (Inl err2, st3) \<Rightarrow> (Inl GarminConnectConnectionError, st3))))
   \<and> get_count u (snd (fetch_data w u False st)) \<le> get_count u st + 2"
proof -
  obtain r1 st1 where a1: "fetch_attempt w u st = (r1, st1)"
    by (cases "fetch_attempt w u st")
  obtain r2 st2 where a2: "login w st1 = (r2, st2)"
    by (cases "login w st1")
  obtain r3 st3 where a3: "fetch_attempt w u st2 = (r3, st3)"
    by (cases "fetch_attempt w u st2")
  have n1: "get_count u st1 = Suc (get_count u st)"
    using fetch_attempt_get_count [of u w st] a1 by simp
  have n2: "get_count u st2 = get_count u st1"
    using login_get_count [of u w st1] a2 by simp
  have n3: "get_count u st3 = Suc (get_count u st2)"
    using fetch_attempt_get_count [of u w st2] a3 by simp
  have c: "get_count u (snd (fetch_data w u False st)) \<le> get_count u st + 2"
    using n1 n2 n3 a1 a2 a3
    by (cases r1; cases r2; cases r3) (simp_all add: fetch_data_unrolled)
  show ?thesis using c fetch_data_unrolled by blast
qed

text \<open>
  The claim as first stated fails where the session has expired and the sign-in page
  yields no ticket: the GET is sent once, \<open>login\<close> raises
  \<open>GarminConnectAuthenticationError\<close>, and that is what \<open>fetch_data\<close> raises.
\<close>

theorem fetch_data_relogin_fails:
  "fetch_data no_ticket_world (Activities_search 0 1 False) False logged_in_state =
     (Inl GarminConnectAuthenticationError,
      \<lparr>is_login = True,
       calls = [Get (Activities_search 0 1 False), Cf_get_signin, Cf_post_signin],
       gpx_folder = []\<rparr>)"
  by (simp add: fetch_data.simps fetch_attempt_def login_def signin_def perform_def
      no_ticket_world_def no_ticket_reply_def logged_in_state_def plain_response_def)

subsection \<open>Decimal identifiers\<close>

lemma of_char_digit_chr: "d < 10 \<Longrightarrow> of_char (digit_chr d) = 48 + d"
proof -
  assume "d < 10"
  then have "d = 0 \<or> d = 1 \<or> d = 2 \<or> d = 3 \<or> d = 4 \<or> d = 5 \<or> d = 6
    \<or> d = 7 \<or> d = 8 \<or> d = 9"
    by presburger
  then show ?thesis
    by (elim disjE) (simp_all add: digit_chr_def)
qed



lemma str_nat_chars: "x \<in> set (str_nat n) \<Longrightarrow> \<exists>d<10. x = digit_chr d"
proof (induction n rule: str_nat.induct)
  case (1 n)
  show ?case
  proof (cases "n < 10")
    case True
    with 1(2) show ?thesis
      by (subst (asm) str_nat.simps) auto
  next
    case False
    with 1 show ?thesis
      by (subst (asm) (2) str_nat.simps) (auto intro: exI [of _ "n mod 10"])
  qed
qed

lemma str_nat_not_Nil: "str_nat n \<noteq> []"
  by (subst str_nat.simps) simp

lemma digit_chr_neq:
  "d < 10 \<Longrightarrow> digit_chr d \<noteq> CHR ''-'' \<and> digit_chr d \<noteq> CHR ''.'' \<and> digit_chr d \<noteq> CHR ''/''"
proof -
  assume d: "d < 10"
  have "of_char (digit_chr d) \<noteq> (45::nat)" "of_char (digit_chr d) \<noteq> (46::nat)"
       "of_char (digit_chr d) \<noteq> (47::nat)"
    using d by (simp_all add: of_char_digit_chr)
  then show ?thesis by auto
qed


lemma str_nat_plain: "CHR ''.'' \<notin> set (str_nat n) \<and> CHR ''/'' \<notin> set (str_nat n)"
proof -
  have "\<And>x. x \<in> set (str_nat n) \<Longrightarrow> x \<noteq> CHR ''.'' \<and> x \<noteq> CHR ''/''"
  proof -
    fix x assume "x \<in> set (str_nat n)"
    then obtain d where "d < 10" "x = digit_chr d"
      using str_nat_chars by blast
    then show "x \<noteq> CHR ''.'' \<and> x \<noteq> CHR ''/''"
      using digit_chr_neq [of d] by simp
  qed
  then show ?thesis by blast
qed

lemma plain_id_str_int: "plain_id (str_int i)"
  using str_nat_plain str_nat_not_Nil
  by (simp add: plain_id_def str_int_def)

subsection \<open>Listing\<close>

lemma fetch_data_served:
  assumes "serves w c acts"
  shows "fetch_data w (activities_url c start limit) False st =
     (Inr (take limit (drop start acts)),
      st\<lparr>calls := calls st @ [Get (activities_url c start limit)]\<rparr>)"
proof -
  obtain r where r: "reply w (calls st) (Get (activities_url c start limit)) = Returned r"
      "status_code r = 200" "json_body r = Some (take limit (drop start acts))"
    using assms unfolding serves_def by blast
  show ?thesis
    by (simp add: fetch_data.simps fetch_attempt_def perform_def r httpx_raises_def)
qed


lemma select_none_pass:
  "\<forall>a\<in>set xs. \<exists>k. typeKey a = Some k \<and> \<not> type_in k ts \<Longrightarrow> select_activity_types ts xs = Inr []"
  by (induction xs) auto

lemma get_activities_served:
  assumes "serves w c acts" "is_login st"
  shows "get_activities w c start limit st =
     ((if filter_disabled (activity_types c) then Inr (take limit (drop start acts))
       else select_activity_types (activity_types c) (take limit (drop start acts))),
      st\<lparr>calls := calls st @ [Get (activities_url c start limit)]\<rparr>)"
  using assms by (simp add: get_activities_def fetch_data_served)


lemma ids_of_identifier_of: "ids_of activities = map identifier_of activities"
  by (simp add: ids_of_def identifier_of_def dict_get_activityId_def split: option.splits)


lemma static_world_serves: "serves (static_world acts) c acts"
  by (simp add: serves_def static_world_def static_reply_def plain_response_def activities_url_def)






text \<open>
  Claim C9.  In \<open>all\<close> mode with the type filter on, the listing ends at the first page of
  which the filter keeps nothing, whatever the page held before filtering: the test for
  the empty page is made on the filtered list.  In the example that follows the theorem,
  the first page holds 100 cycling activities and the second page a running activity,
  which is never asked for.
\<close>

theorem filtered_empty_page_ends_listing:
  assumes "sync_type c = ''all''" and "is_login st"
    and "fetch_data w (activities_url c start 100) False st = (Inr raw, st1)"
    and "\<not> filter_disabled (activity_types c)"
    and "select_activity_types (activity_types c) raw = Inr []"
  shows "get_activity_id_list w c start st = Some (Inr [], st1)"
  using assms
  by (subst get_activity_id_list.simps) (simp add: get_activities_def)

theorem filtered_empty_page_ends_listing_witness:
  "get_activity_id_list (static_world (hundred ''cycling'' @ [numbered ''running'' 100]))
      (all_client (Type_list [''running''])) 0 logged_in_state =
     Some (Inr [], logged_in_state\<lparr>calls := [Get (Activities_search 0 100 False)]\<rparr>)
   \<and> take 100 (hundred ''cycling'' @ [numbered ''running'' 100]) = hundred ''cycling''
   \<and> length (hundred ''cycling'') = 100
   \<and> select_activity_types (Type_list [''running''])
        (drop 100 (hundred ''cycling'' @ [numbered ''running'' 100])) = Inr [numbered ''running'' 100]"
proof -
  let ?acts = "hundred ''cycling'' @ [numbered ''running'' 100]"
  let ?c = "all_client (Type_list [''running''])"
  let ?w = "static_world ?acts"
  have len: "length (hundred ''cycling'') = 100" by (simp add: hundred_def)
  have tk: "take 100 ?acts = hundred ''cycling''" using len by simp
  have 1: "sync_type ?c = ''all''" by (simp add: all_client_def)
  have 2: "is_login logged_in_state" by (simp add: logged_in_state_def)
  have 3: "fetch_data ?w (activities_url ?c 0 100) False logged_in_state =
      (Inr (hundred ''cycling''), logged_in_state\<lparr>calls := [Get (Activities_search 0 100 False)]\<rparr>)"
    using tk fetch_data_served [OF static_world_serves, of ?acts ?c 0 100 logged_in_state]
    by (simp add: logged_in_state_def activities_url_def all_client_def)
  have 4: "\<not> filter_disabled (activity_types ?c)" by (simp add: all_client_def)
  have 5: "select_activity_types (activity_types ?c) (hundred ''cycling'') = Inr []"
    by (rule select_none_pass) (auto simp: hundred_def numbered_def all_client_def)
  have 6: "select_activity_types (Type_list [''running'']) (drop 100 ?acts) = Inr [numbered ''running'' 100]"
    using len by (simp add: numbered_def)
  show ?thesis
    using filtered_empty_page_ends_listing [OF 1 2 3 4 5] tk len 6 by simp
qed

text \<open>
  Claim C10.  The identifiers are extracted without any exception: the list \<open>ids\<close> of the
  source is, record by record, \<open>str\<close> of the \<open>activityId\<close> field, and the empty string for a
  record without the key; whenever the listing operation returns, \<open>get_activity_id_list\<close>
  returns these strings (in \<open>all\<close> mode followed by those of the later pages).
\<close>

theorem identifier_extraction_total:
  "ids_of activities = map identifier_of activities
   \<and> (sync_type c \<noteq> ''all'' \<longrightarrow> get_activities w c start 1 st = (Inr activities, st1) \<longrightarrow>
        get_activity_id_list w c start st = Some (Inr (map identifier_of activities), st1))
   \<and> (sync_type c = ''all'' \<longrightarrow> get_activities w c start 100 st = (Inr activities, st1) \<longrightarrow>
        activities \<noteq> [] \<longrightarrow>
        get_activity_id_list w c (start + 100) st1 = Some (Inr rest, st2) \<longrightarrow>
        get_activity_id_list w c start st = Some (Inr (map identifier_of activities @ rest), st2))"
proof (intro conjI impI)
  show "ids_of activities = map identifier_of activities"
    by (rule ids_of_identifier_of)
next
  assume "sync_type c \<noteq> ''all''" "get_activities w c start 1 st = (Inr activities, st1)"
  then show "get_activity_id_list w c start st = Some (Inr (map identifier_of activities), st1)"
    by (subst get_activity_id_list.simps) (simp add: ids_of_identifier_of)
next
  assume "sync_type c = ''all''" "get_activities w c start 100 st = (Inr activities, st1)"
    "activities \<noteq> []" "get_activity_id_list w c (start + 100) st1 = Some (Inr rest, st2)"
  then show "get_activity_id_list w c start st = Some (Inr (map identifier_of activities @ rest), st2)"
    by (subst get_activity_id_list.simps) (simp add: ids_of_identifier_of)
qed

theorem identifier_extraction_total_witness:
  "ids_of [anonymous, numbered ''running'' 333] = ['''', ''333'']
   \<and> get_activity_id_list (static_world [anonymous]) (recent_client (Type_list [''running''])) 0
       logged_in_state =
     Some (Inr [''''], logged_in_state\<lparr>calls := [Get (Activities_search 0 1 False)]\<rparr>)
   \<and> get_activity_id_list (static_world [anonymous]) (all_client (Type_list [''''])) 0
       logged_in_state =
     Some (Inr [''''], logged_in_state\<lparr>calls := [Get (Activities_search 0 100 False),
                                                Get (Activities_search 100 100 False)]\<rparr>)"
proof -
  let ?w = "static_world [anonymous]"
  let ?r = "recent_client (Type_list [''running''])"
  let ?a = "all_client (Type_list [''''])"
  let ?s1 = "logged_in_state\<lparr>calls := [Get (Activities_search 0 100 False)]\<rparr>"
  let ?s2 = "logged_in_state\<lparr>calls := [Get (Activities_search 0 100 False),
                                                Get (Activities_search 100 100 False)]\<rparr>"
  have i: "map identifier_of [anonymous, numbered ''running'' 333] = ['''', ''333'']"
    by (simp add: identifier_of_def anonymous_def numbered_def str_int_def str_nat.simps digit_chr_def)
  have r1: "sync_type ?r \<noteq> ''all''" by (simp add: recent_client_def)
  have r2: "get_activities ?w ?r 0 1 logged_in_state =
      (Inr [anonymous], logged_in_state\<lparr>calls := [Get (Activities_search 0 1 False)]\<rparr>)"
    by (simp add: get_activities_served [OF static_world_serves] logged_in_state_def
        recent_client_def activities_url_def anonymous_def)
  have a1: "sync_type ?a = ''all''" by (simp add: all_client_def)
  have a2: "get_activities ?w ?a 0 100 logged_in_state = (Inr [anonymous], ?s1)"
    by (simp add: get_activities_served [OF static_world_serves] logged_in_state_def
        all_client_def activities_url_def)
  have a3: "[anonymous] \<noteq> []" by simp
  have a4: "get_activities ?w ?a 100 100 ?s1 = (Inr [], ?s2)"
    by (simp add: get_activities_served [OF static_world_serves] logged_in_state_def
        all_client_def activities_url_def)
  have a5: "get_activity_id_list ?w ?a (0 + 100) ?s1 = Some (Inr [], ?s2)"
    by (subst get_activity_id_list.simps) (simp add: a4, simp add: all_client_def)
  have t: "identifier_of anonymous = ''''"
    by (simp add: identifier_of_def anonymous_def)
  note T = identifier_extraction_total [of "[anonymous, numbered ''running'' 333]" ?r ?w 0 logged_in_state]
  note R = identifier_extraction_total [of "[anonymous]" ?r ?w 0 logged_in_state
      "logged_in_state\<lparr>calls := [Get (Activities_search 0 1 False)]\<rparr>"]
  note A = identifier_extraction_total [of "[anonymous]" ?a ?w 0 logged_in_state ?s1 "[]" ?s2]
  show ?thesis
    using T i R r1 r2 A a1 a2 a3 a5 t by simp
qed

subsection \<open>The admission protocol\<close>

lemma running_after_acquire:
  "i < length ps \<Longrightarrow> ps ! i = Waiting \<Longrightarrow>
   length (filter (\<lambda>p. p = Running) (ps[i := Running])) = Suc (length (filter (\<lambda>p. p = Running) ps))"
proof (induction ps arbitrary: i)
  case Nil
  then show ?case by simp
next
  case (Cons p ps)
  then show ?case by (cases i) auto
qed

lemma running_after_release:
  "i < length ps \<Longrightarrow> ps ! i = Running \<Longrightarrow>
   Suc (length (filter (\<lambda>p. p = Running) (ps[i := Finished]))) = length (filter (\<lambda>p. p = Running) ps)"
proof (induction ps arbitrary: i)
  case Nil
  then show ?case by simp
next
  case (Cons p ps)
  then show ?case by (cases i) auto
qed

lemma sem_task_step_invariant:
  "sem_task_step s s' \<Longrightarrow> in_flight s' + sem_value s' = in_flight s + sem_value s"
proof (induction rule: sem_task_step.induct)
  case (acquire i s)
  then show ?case
    using running_after_acquire [of i "phases s"] by (simp add: in_flight_def)
next
  case (release i s)
  then show ?case
    using running_after_release [of i "phases s"] by (simp add: in_flight_def)
qed

lemma gather_start_in_flight: "in_flight (gather_start n tasks) = 0"
  by (simp add: in_flight_def gather_start_def)

lemma reachable_invariant:
  "sem_task_step\<^sup>*\<^sup>* (gather_start n tasks) s \<Longrightarrow> in_flight s + sem_value s = n"
proof (induction rule: rtranclp_induct)
  case base
  show ?case by (simp add: gather_start_in_flight) (simp add: gather_start_def)
next
  case (step s s')
  then show ?case using sem_task_step_invariant [of s s'] by simp
qed

text \<open>
  Claim C6.  Whatever the limit \<open>n\<close> and the list of tasks, in every state that the
  admission protocol of \<open>gather_with_concurrency\<close> can reach, at most \<open>n\<close> tasks are inside
  \<open>async with semaphore\<close>; the batch of \<open>download_new_activities\<close> runs under the limit 10.
\<close>

theorem semaphore_bounds_in_flight:
  "(sem_task_step\<^sup>*\<^sup>* (gather_start n tasks) s \<longrightarrow> in_flight s \<le> n)
   \<and> (sem_task_step\<^sup>*\<^sup>* (download_batch_start to_generate) s' \<longrightarrow> in_flight s' \<le> 10)"
  using reachable_invariant [of n tasks s] reachable_invariant [of 10 to_generate s']
  by (auto simp: download_batch_start_def)

theorem semaphore_bounds_in_flight_witness:
  "sem_task_step\<^sup>*\<^sup>* (gather_start 1 [(), ()]) one_admitted
   \<and> in_flight one_admitted = 1 \<and> in_flight one_admitted \<le> 1
   \<and> sem_task_step\<^sup>*\<^sup>* (download_batch_start [''111'', ''222'']) batch_one_admitted
   \<and> in_flight batch_one_admitted \<le> 10"
proof -
  have a: "sem_task_step (gather_start 1 [(), ()]) one_admitted"
    using acquire [of 0 "gather_start 1 [(), ()]"]
    by (simp add: gather_start_def one_admitted_def)
  have b: "sem_task_step (download_batch_start [''111'', ''222'']) batch_one_admitted"
    using acquire [of 0 "download_batch_start [''111'', ''222'']"]
    by (simp add: gather_start_def download_batch_start_def batch_one_admitted_def)
  have a': "sem_task_step\<^sup>*\<^sup>* (gather_start 1 [(), ()]) one_admitted"
    using a by (rule r_into_rtranclp)
  have b': "sem_task_step\<^sup>*\<^sup>* (download_batch_start [''111'', ''222'']) batch_one_admitted"
    using b by (rule r_into_rtranclp)
  have c: "in_flight one_admitted = 1" by (simp add: in_flight_def one_admitted_def)
  show ?thesis
    using semaphore_bounds_in_flight [of 1 "[(), ()]" one_admitted "[''111'', ''222'']" batch_one_admitted]
      a' b' c by simp
qed

subsection \<open>The batch of downloads\<close>

lemma grows_refl: "grows st st"
  by (simp add: grows_def)

lemma grows_trans: "grows a b \<Longrightarrow> grows b c \<Longrightarrow> grows a c"
  by (auto simp: grows_def)

lemma grows_perform: "grows st (snd (perform w x st))"
  by (auto simp: grows_def perform_def)

lemma perform_calls: "x \<in> set (calls (snd (perform w x st)))"
  by (simp add: perform_def)

lemma grows_add_entry: "grows st (add_entry n st)"
  by (auto simp: grows_def add_entry_def)

lemma grows_record_call: "grows st (record_call x st)"
  by (auto simp: grows_def record_call_def)

lemma grows_calls: "grows a b \<Longrightarrow> x \<in> set (calls a) \<Longrightarrow> x \<in> set (calls b)"
  by (auto simp: grows_def)

lemma grows_folder: "grows a b \<Longrightarrow> x \<in> set (gpx_folder a) \<Longrightarrow> x \<in> set (gpx_folder b)"
  by (auto simp: grows_def)

lemma grows_extractall: "grows st (snd (extractall w ms st))"
proof (induction ms arbitrary: st)
  case Nil
  show ?case by (simp add: grows_refl)
next
  case (Cons m ms)
  obtain o1 st1 where p: "perform w (Extract m) st = (o1, st1)"
    by (cases "perform w (Extract m) st")
  have g1: "grows st st1" using grows_perform [of st w "Extract m"] p by simp
  show ?case
  proof (cases o1)
    case Raised
    then show ?thesis using p g1 by simp
  next
    case (Returned r)
    have "grows st1 (snd (extractall w ms (add_entry m st1)))"
      using grows_add_entry [of st1 m] Cons.IH [of "add_entry m st1"] by (rule grows_trans)
    then show ?thesis using p g1 Returned by (simp add: grows_trans)
  qed
qed

lemma grows_write_activity: "grows st (snd (write_activity w n st))"
proof -
  obtain o1 st1 where p: "perform w (Open_wb n) st = (o1, st1)"
    by (cases "perform w (Open_wb n) st")
  obtain o2 st2 where q: "perform w (Write_file n) (add_entry n st1) = (o2, st2)"
    by (cases "perform w (Write_file n) (add_entry n st1)")
  have g1: "grows st st1" using grows_perform [of st w "Open_wb n"] p by simp
  have g2: "grows st1 st2"
    using grows_add_entry [of st1 n] grows_perform [of "add_entry n st1" w "Write_file n"] q
    by (auto intro: grows_trans)
  have g3: "grows st st2" using g1 g2 by (rule grows_trans)
  show ?thesis
    using p q g1 g3 by (cases o1; cases o2) (simp_all add: write_activity_def)
qed

lemma download_activity_grows:
  "grows st (snd (download_activity w c i st))
   \<and> Get (download_url c i) \<in> set (calls (snd (download_activity w c i st)))"
proof -
  obtain o1 st1 where p: "perform w (Get (download_url c i)) st = (o1, st1)"
    by (cases "perform w (Get (download_url c i)) st")
  have "grows st st1" "Get (download_url c i) \<in> set (calls st1)"
    using grows_perform [of st w "Get (download_url c i)"]
      perform_calls [of "Get (download_url c i)" w st] p by simp_all
  then show ?thesis
    using p by (cases o1) (simp_all add: download_activity_def)
qed

lemma download_and_store_grows:
  "grows st (snd (download_and_store w c i st))
   \<and> Get (download_url c i) \<in> set (calls (snd (download_and_store w c i st)))"
proof -
  obtain r st1 where d: "download_activity w c i st = (r, st1)"
    by (cases "download_activity w c i st")
  have g: "grows st st1" "Get (download_url c i) \<in> set (calls st1)"
    using download_activity_grows [of st w c i] d by simp_all
  have e: "grows st (snd (extractall w ms st1))
             \<and> Get (download_url c i) \<in> set (calls (snd (extractall w ms st1)))" for ms
    using g grows_extractall [of st1 w ms] by (blast intro: grows_trans grows_calls)
  have f: "grows st (snd (write_activity w n st1))
             \<and> Get (download_url c i) \<in> set (calls (snd (write_activity w n st1)))" for n
    using g grows_write_activity [of st1 w n] by (blast intro: grows_trans grows_calls)
  show ?thesis
    using d g e f by (cases r) (simp_all add: download_and_store_def split: option.splits)
qed

lemma save_garmin_activity_returns: "fst (save_garmin_activity w c i st) = Inr ()"
  by (simp add: save_garmin_activity_def split: prod.splits sum.splits)

lemma save_garmin_activity_grows:
  "grows st (snd (save_garmin_activity w c i st))
   \<and> Get (download_url c i) \<in> set (calls (snd (save_garmin_activity w c i st)))"
proof -
  obtain r st1 where d: "download_and_store w c i st = (r, st1)"
    by (cases "download_and_store w c i st")
  have g: "grows st st1" "Get (download_url c i) \<in> set (calls st1)"
    using download_and_store_grows [of st w c i] d by simp_all
  have h: "grows st (record_call Print_exception st1)"
    using g(1) grows_record_call [of st1 Print_exception] by (rule grows_trans)
  have k: "Get (download_url c i) \<in> set (calls (record_call Print_exception st1))"
    using g(2) by (simp add: record_call_def)
  show ?thesis
    using d g h k by (cases r) (simp_all add: save_garmin_activity_def)
qed

lemma save_garmin_activity_stores:
  assumes "file_type c = ''gpx'' \<or> file_type c = ''tcx''" and "downloads_well w c i"
    and "CHR ''/'' \<notin> set i"
  shows "i @ ''.'' @ file_type c \<in> set (gpx_folder (snd (save_garmin_activity w c i st)))"
proof -
  let ?n = "i @ ''.'' @ file_type c"
  let ?st1 = "st\<lparr>calls := calls st @ [Get (download_url c i)]\<rparr>"
  let ?st2 = "?st1\<lparr>calls := calls ?st1 @ [Open_wb ?n]\<rparr>"
  obtain r where r: "reply w (calls st) (Get (download_url c i)) = Returned r"
      "\<not> httpx_raises (status_code r)"
    using assms(2) unfolding downloads_well_def by blast
  obtain r1 where r1: "reply w (calls ?st1) (Open_wb ?n) = Returned r1"
    using assms(2) unfolding downloads_well_def by (metis outcome.exhaust)
  obtain r2 where r2: "reply w (calls (add_entry ?n ?st2)) (Write_file ?n) = Returned r2"
    using assms(2) unfolding downloads_well_def by (metis outcome.exhaust)
  have nf: "file_type c \<noteq> ''fit''" using assms(1) by auto
  have sl: "CHR ''/'' \<notin> set ?n" using assms(1,3) by auto
  have d: "download_activity w c i st = (Inr r, ?st1)"
    using r by (simp add: download_activity_def perform_def)
  have wr: "write_activity w ?n ?st1 =
      (Inr (), (add_entry ?n ?st2)\<lparr>calls := calls (add_entry ?n ?st2) @ [Write_file ?n]\<rparr>)"
    using r1 r2 by (simp add: write_activity_def perform_def)
  have "?n \<in> set (gpx_folder (add_entry ?n ?st2))"
    using sl by (simp add: add_entry_def)
  then show ?thesis
    using d wr nf by (simp add: save_garmin_activity_def download_and_store_def)
qed

lemma gather_saves_returns:
  "fst (gather (map (save_garmin_activity w c) ids) st) = Inr (map (\<lambda>i. ()) ids)"
proof (induction ids arbitrary: st)
  case Nil
  show ?case by simp
next
  case (Cons i ids)
  obtain r st1 where s: "save_garmin_activity w c i st = (r, st1)"
    by (cases "save_garmin_activity w c i st")
  have r: "r = Inr ()" using save_garmin_activity_returns [of w c i st] s by simp
  obtain rs st2 where g: "gather (map (save_garmin_activity w c) ids) st1 = (rs, st2)"
    by (cases "gather (map (save_garmin_activity w c) ids) st1")
  have rs: "rs = Inr (map (\<lambda>i. ()) ids)" using Cons.IH [of st1] g by simp
  show ?case using s r g rs by simp
qed

lemma gather_saves_grows:
  "grows st (snd (gather (map (save_garmin_activity w c) ids) st))
   \<and> (\<forall>i\<in>set ids. Get (download_url c i) \<in> set (calls (snd (gather (map (save_garmin_activity w c) ids) st))))"
proof (induction ids arbitrary: st)
  case Nil
  show ?case by (simp add: grows_refl)
next
  case (Cons i ids)
  obtain r st1 where s: "save_garmin_activity w c i st = (r, st1)"
    by (cases "save_garmin_activity w c i st")
  obtain rs st2 where g: "gather (map (save_garmin_activity w c) ids) st1 = (rs, st2)"
    by (cases "gather (map (save_garmin_activity w c) ids) st1")
  have a: "grows st st1" "Get (download_url c i) \<in> set (calls st1)"
    using save_garmin_activity_grows [of st w c i] s by simp_all
  have b: "grows st1 st2" "\<forall>j\<in>set ids. Get (download_url c j) \<in> set (calls st2)"
    using Cons.IH [of st1] g by simp_all
  have e: "snd (gather (map (save_garmin_activity w c) (i # ids)) st) = st2"
    using s g by (simp split: sum.splits)
  have "grows st st2" using a(1) b(1) by (rule grows_trans)
  moreover have "Get (download_url c i) \<in> set (calls st2)"
    using a(2) b(1) by (auto simp: grows_def)
  ultimately show ?case using e b(2) by simp
qed

lemma gather_saves_stores:
  assumes "file_type c = ''gpx'' \<or> file_type c = ''tcx''"
  shows "i \<in> set ids \<Longrightarrow> downloads_well w c i \<Longrightarrow> CHR ''/'' \<notin> set i \<Longrightarrow>
    i @ ''.'' @ file_type c \<in> set (gpx_folder (snd (gather (map (save_garmin_activity w c) ids) st)))"
proof (induction ids arbitrary: st)
  case Nil
  then show ?case by simp
next
  case (Cons j ids)
  obtain r st1 where s: "save_garmin_activity w c j st = (r, st1)"
    by (cases "save_garmin_activity w c j st")
  obtain rs st2 where g: "gather (map (save_garmin_activity w c) ids) st1 = (rs, st2)"
    by (cases "gather (map (save_garmin_activity w c) ids) st1")
  have e: "snd (gather (map (save_garmin_activity w c) (j # ids)) st) = st2"
    using s g by (simp split: sum.splits)
  have b: "grows st1 st2"
    using gather_saves_grows [of st1 w c ids] g by simp
  show ?case
  proof (cases "i = j")
    case True
    have "i @ ''.'' @ file_type c \<in> set (gpx_folder st1)"
      using save_garmin_activity_stores [OF assms Cons.prems(2,3), of st] s True by simp
    then show ?thesis using b e by (auto simp: grows_def)
  next
    case False
    then have "i \<in> set ids" using Cons.prems(1) by simp
    then show ?thesis
      using Cons.IH [of st1] Cons.prems(2,3) g e by simp
  qed
qed

lemma set_to_generate:
  "rearranges order \<Longrightarrow>
   set (to_generate_garmin_ids order R (downloaded_ids L)) = set R - local_id_set L"
  by (auto simp: to_generate_garmin_ids_def rearranges_set set_downloaded_ids)

lemma local_id_set_mono: "set L \<subseteq> set L' \<Longrightarrow> local_id_set L \<subseteq> local_id_set L'"
  by (auto simp: local_id_set_def)

lemma name_stem_in_local_id_set:
  "e \<in> set L \<Longrightarrow> \<not> hidden e \<Longrightarrow> name_stem e \<in> local_id_set L"
  by (auto simp: local_id_set_def)

lemma plain_id_stem:
  assumes "plain_id i" and "i @ ''.'' @ ft \<in> set L"
  shows "i \<in> local_id_set L"
proof -
  have "name_stem (i @ ''.'' @ ft) = i"
    using assms(1) by (simp add: name_stem_def plain_id_def takeWhile_append)
  moreover have "\<not> hidden (i @ ''.'' @ ft)"
    using assms(1) by (cases i) (auto simp: hidden_def plain_id_def)
  ultimately show ?thesis
    using name_stem_in_local_id_set [OF assms(2)] by simp
qed

lemma gather_10: "gather_with_concurrency 10 tasks st = Some (gather tasks st)"
  by (simp add: gather_with_concurrency_def)

lemma download_batch_eq:
  "download_batch w c downloaded activity_ids st =
     Some (Inr (), record_call Aclose (record_call Make_activities_file_only
        (after_batch w c (to_generate_garmin_ids (set_order w) activity_ids downloaded) st)))"
proof -
  let ?T = "to_generate_garmin_ids (set_order w) activity_ids downloaded"
  obtain r st1 where g: "gather (map (save_garmin_activity w c) ?T) st = (r, st1)"
    by (cases "gather (map (save_garmin_activity w c) ?T) st")
  have "r = Inr (map (\<lambda>i. ()) ?T)"
    using gather_saves_returns [of w c ?T st] g by simp
  then show ?thesis
    using g by (simp add: download_batch_def gather_10 after_batch_def)
qed

lemma save_broken:
  "i \<in> set broken \<Longrightarrow> save_garmin_activity (remote_world acts broken) gpx_client i st =
     (Inr (), st\<lparr>calls := calls st @ [Get (Download_export ''gpx'' i), Print_exception]\<rparr>)"
  by (simp add: save_garmin_activity_def download_and_store_def download_activity_def
      perform_def download_url_def remote_world_def remote_reply_def gpx_client_def
      recent_client_def plain_response_def httpx_raises_def record_call_def)

lemma save_healthy:
  "i \<notin> set broken \<Longrightarrow> CHR ''/'' \<notin> set i \<Longrightarrow>
   save_garmin_activity (remote_world acts broken) gpx_client i st =
     (Inr (), st\<lparr>calls := calls st @ [Get (Download_export ''gpx'' i), Open_wb (i @ ''.gpx''),
                    Write_file (i @ ''.gpx'')],
                 gpx_folder := List.insert (i @ ''.gpx'') (gpx_folder st)\<rparr>)"
  by (simp add: save_garmin_activity_def download_and_store_def download_activity_def
      write_activity_def add_entry_def
      perform_def download_url_def remote_world_def remote_reply_def gpx_client_def
      recent_client_def plain_response_def httpx_raises_def record_call_def)

lemma downloads_well_healthy:
  "i \<notin> set broken \<Longrightarrow> downloads_well (remote_world acts broken) gpx_client i"
  by (simp add: downloads_well_def download_url_def remote_world_def remote_reply_def
      gpx_client_def recent_client_def plain_response_def httpx_raises_def)

lemma login_remote_world:
  "login (remote_world acts broken) st =
     (Inr (), st\<lparr>calls := calls st @ [Cf_get_signin, Cf_post_signin,
                     Cf_get ''https://connect.garmin.com?ticket=ST-1''],
                 is_login := True\<rparr>)"
  by (simp add: login_def signin_def ticket_exchange_def perform_def remote_world_def
      remote_reply_def ticket_response_def plain_response_def requests_raises_def)

lemma remote_world_serves: "serves (remote_world acts broken) c acts"
  by (simp add: serves_def remote_world_def remote_reply_def plain_response_def activities_url_def)

text \<open>
  Claim C5.  Every task of the batch returns, whatever fails inside it; the batch call
  returns the list of results and does not raise; every task of the batch has sent its
  download request; every task whose own download and write succeed has stored its file,
  whatever happened to the others; and \<open>download_new_activities\<close> goes on to
  \<open>make_activities_file_only\<close> after the batch.
\<close>

theorem download_batch_isolates_failures:
  "fst (save_garmin_activity w c i st) = Inr ()
   \<and> gather_with_concurrency 10 (map (save_garmin_activity w c) ids) st =
       Some (Inr (map (\<lambda>i. ()) ids), after_batch w c ids st)
   \<and> (\<forall>j\<in>set ids. Get (download_url c j) \<in> set (calls (after_batch w c ids st)))
   \<and> (\<forall>j\<in>set ids. (file_type c = ''gpx'' \<or> file_type c = ''tcx'') \<and> downloads_well w c j
         \<and> CHR ''/'' \<notin> set j \<longrightarrow>
         j @ ''.'' @ file_type c \<in> set (gpx_folder (after_batch w c ids st)))
   \<and> download_batch w c downloaded activity_ids st =
       Some (Inr (), record_call Aclose (record_call Make_activities_file_only
          (after_batch w c (to_generate_garmin_ids (set_order w) activity_ids downloaded) st)))"
proof (intro conjI)
  show "fst (save_garmin_activity w c i st) = Inr ()"
    by (rule save_garmin_activity_returns)
  show "gather_with_concurrency 10 (map (save_garmin_activity w c) ids) st =
       Some (Inr (map (\<lambda>i. ()) ids), after_batch w c ids st)"
    using gather_saves_returns [of w c ids st]
    by (simp add: gather_10 after_batch_def prod_eq_iff)
  show "\<forall>j\<in>set ids. Get (download_url c j) \<in> set (calls (after_batch w c ids st))"
    using gather_saves_grows [of st w c ids] by (simp add: after_batch_def)
  show "\<forall>j\<in>set ids. (file_type c = ''gpx'' \<or> file_type c = ''tcx'') \<and> downloads_well w c j
         \<and> CHR ''/'' \<notin> set j \<longrightarrow>
         j @ ''.'' @ file_type c \<in> set (gpx_folder (after_batch w c ids st))"
  proof (intro ballI impI)
    fix j
    assume "j \<in> set ids" and "(file_type c = ''gpx'' \<or> file_type c = ''tcx'')
      \<and> downloads_well w c j \<and> CHR ''/'' \<notin> set j"
    then show "j @ ''.'' @ file_type c \<in> set (gpx_folder (after_batch w c ids st))"
      using gather_saves_stores [of c j ids w st] unfolding after_batch_def by blast
  qed
  show "download_batch w c downloaded activity_ids st =
       Some (Inr (), record_call Aclose (record_call Make_activities_file_only
          (after_batch w c (to_generate_garmin_ids (set_order w) activity_ids downloaded) st)))"
    by (rule download_batch_eq)
qed

theorem download_batch_isolates_failures_witness:
  "downloads_well (remote_world [] [''111'']) gpx_client ''222''
   \<and> download_batch (remote_world [] [''111'']) gpx_client [] [''111'', ''222''] logged_in_state =
       Some (Inr (),
         \<lparr>is_login = True,
          calls = [Get (Download_export ''gpx'' ''111''), Print_exception,
                   Get (Download_export ''gpx'' ''222''), Open_wb ''222.gpx'', Write_file ''222.gpx'',
                   Make_activities_file_only, Aclose],
          gpx_folder = [''222.gpx'']\<rparr>)"
proof -
  let ?w = "remote_world [] [''111'']"
  have d: "downloads_well ?w gpx_client ''222''"
    by (rule downloads_well_healthy) simp
  have t: "to_generate_garmin_ids (set_order ?w) [''111'', ''222''] [] = [''111'', ''222'']"
    by (simp add: to_generate_garmin_ids_def remote_world_def)
  have b: "after_batch ?w gpx_client [''111'', ''222''] logged_in_state =
      \<lparr>is_login = True,
       calls = [Get (Download_export ''gpx'' ''111''), Print_exception,
                Get (Download_export ''gpx'' ''222''), Open_wb ''222.gpx'', Write_file ''222.gpx''],
       gpx_folder = [''222.gpx'']\<rparr>"
    by (simp add: after_batch_def save_broken save_healthy logged_in_state_def)
  show ?thesis
    using download_batch_isolates_failures [of ?w gpx_client "''222''" logged_in_state
        "[''111'', ''222'']" "[]" "[''111'', ''222'']"] d t b
    by (simp add: record_call_def)
qed

text \<open>
  Claim C7, as amended.  An identifier that is the name stem of a non-hidden entry of the
  archive directory is never in the new-work list.  When the format is gpx or tcx, the
  listed identifiers are non-empty and contain neither a dot nor a slash, and every
  download and write of a first run succeeds, then a second run that lists the same
  identifiers has an empty new-work list and makes no download request.
\<close>

theorem archived_ids_are_not_downloaded_again:
  assumes "rearranges (set_order w)"
  shows "(\<forall>i\<in>local_id_set L. i \<notin> set (to_generate_garmin_ids (set_order w) R (downloaded_ids L)))
   \<and> ((file_type c = ''gpx'' \<or> file_type c = ''tcx'') \<and> (\<forall>i\<in>set R. plain_id i)
        \<and> (\<forall>i\<in>set R - local_id_set (gpx_folder st). downloads_well w c i)
        \<and> download_batch w c (downloaded_ids (gpx_folder st)) R st = Some (r, st1) \<longrightarrow>
        to_generate_garmin_ids (set_order w) R (downloaded_ids (gpx_folder st1)) = []
        \<and> download_batch w c (downloaded_ids (gpx_folder st1)) R st1 =
            Some (Inr (), record_call Aclose (record_call Make_activities_file_only st1)))"
proof (intro conjI impI)
  show "\<forall>i\<in>local_id_set L. i \<notin> set (to_generate_garmin_ids (set_order w) R (downloaded_ids L))"
    using assms by (simp add: set_to_generate)
next
  assume a: "(file_type c = ''gpx'' \<or> file_type c = ''tcx'') \<and> (\<forall>i\<in>set R. plain_id i)
        \<and> (\<forall>i\<in>set R - local_id_set (gpx_folder st). downloads_well w c i)
        \<and> download_batch w c (downloaded_ids (gpx_folder st)) R st = Some (r, st1)"
  let ?T = "to_generate_garmin_ids (set_order w) R (downloaded_ids (gpx_folder st))"
  let ?b = "after_batch w c ?T st"
  have ft: "file_type c = ''gpx'' \<or> file_type c = ''tcx''" using a by blast
  have pl: "\<And>i. i \<in> set R \<Longrightarrow> plain_id i" using a by blast
  have dw: "\<And>i. i \<in> set R \<Longrightarrow> i \<notin> local_id_set (gpx_folder st) \<Longrightarrow> downloads_well w c i"
    using a by blast
  have run: "download_batch w c (downloaded_ids (gpx_folder st)) R st = Some (r, st1)"
    using a by blast
  have T: "set ?T = set R - local_id_set (gpx_folder st)"
    using assms by (rule set_to_generate)
  have st1: "st1 = record_call Aclose (record_call Make_activities_file_only ?b)"
    using run unfolding download_batch_eq by simp
  have f1: "gpx_folder st1 = gpx_folder ?b"
    unfolding st1 by (simp add: record_call_def)
  have g: "grows st ?b"
    using gather_saves_grows [of st w c ?T] by (simp add: after_batch_def)
  have inl: "i \<in> local_id_set (gpx_folder st1)" if i: "i \<in> set R" for i
  proof (cases "i \<in> local_id_set (gpx_folder st)")
    case True
    have "set (gpx_folder st) \<subseteq> set (gpx_folder st1)"
      using g f1 by (simp add: grows_def)
    then show ?thesis using True local_id_set_mono by blast
  next
    case False
    have p: "plain_id i" using pl i by blast
    have m: "i \<in> set ?T" using T i False by simp
    have d: "downloads_well w c i" using dw i False by blast
    have s: "CHR ''/'' \<notin> set i" using p by (simp add: plain_id_def)
    have "i @ ''.'' @ file_type c \<in> set (gpx_folder ?b)"
      unfolding after_batch_def by (rule gather_saves_stores [OF ft m d s])
    then have "i @ ''.'' @ file_type c \<in> set (gpx_folder st1)"
      using f1 by simp
    then show ?thesis using p by (rule plain_id_stem [rotated])
  qed
  have "set (to_generate_garmin_ids (set_order w) R (downloaded_ids (gpx_folder st1))) = {}"
    unfolding set_to_generate [OF assms] using inl by blast
  then have e: "to_generate_garmin_ids (set_order w) R (downloaded_ids (gpx_folder st1)) = []"
    by simp
  show "to_generate_garmin_ids (set_order w) R (downloaded_ids (gpx_folder st1)) = []"
    by (rule e)
  show "download_batch w c (downloaded_ids (gpx_folder st1)) R st1 =
            Some (Inr (), record_call Aclose (record_call Make_activities_file_only st1))"
    unfolding download_batch_eq e by (simp add: after_batch_def)
qed

theorem archived_ids_are_not_downloaded_again_witness:
  "rearranges (set_order (remote_world [] []))
   \<and> download_batch (remote_world [] []) gpx_client (downloaded_ids (gpx_folder archive_state))
        [''333''] archive_state =
       Some (Inr (),
         \<lparr>is_login = True,
          calls = [Get (Download_export ''gpx'' ''333''), Open_wb ''333.gpx'', Write_file ''333.gpx'',
                   Make_activities_file_only, Aclose],
          gpx_folder = [''333.gpx'', ''111.gpx'', ''222.gpx'']\<rparr>)
   \<and> to_generate_garmin_ids (set_order (remote_world [] [])) [''333'']
        (downloaded_ids [''333.gpx'', ''111.gpx'', ''222.gpx'']) = []
   \<and> ''111'' \<notin> set (to_generate_garmin_ids (set_order (remote_world [] [])) [''111'', ''333'']
        (downloaded_ids [''111.gpx'', ''222.gpx'']))"
proof -
  let ?w = "remote_world [] []"
  let ?s1 = "\<lparr>is_login = True,
          calls = [Get (Download_export ''gpx'' ''333''), Open_wb ''333.gpx'', Write_file ''333.gpx'',
                   Make_activities_file_only, Aclose],
          gpx_folder = [''333.gpx'', ''111.gpx'', ''222.gpx'']\<rparr>"
  have r: "rearranges (set_order ?w)"
    by (simp add: rearranges_def remote_world_def)
  have ft: "file_type gpx_client = ''gpx'' \<or> file_type gpx_client = ''tcx''"
    by (simp add: gpx_client_def recent_client_def)
  have pl: "\<forall>i\<in>set [''333'']. plain_id i" by (simp add: plain_id_def)
  have dw: "\<forall>i\<in>set [''333''] - local_id_set (gpx_folder archive_state). downloads_well ?w gpx_client i"
    by (simp add: downloads_well_healthy)
  have t: "to_generate_garmin_ids (set_order ?w) [''333''] (downloaded_ids (gpx_folder archive_state)) = [''333'']"
    by (simp add: to_generate_garmin_ids_def remote_world_def downloaded_ids_def archive_state_def)
  have b: "after_batch ?w gpx_client [''333''] archive_state =
      \<lparr>is_login = True,
       calls = [Get (Download_export ''gpx'' ''333''), Open_wb ''333.gpx'', Write_file ''333.gpx''],
       gpx_folder = [''333.gpx'', ''111.gpx'', ''222.gpx'']\<rparr>"
    by (simp add: after_batch_def save_healthy archive_state_def)
  have run: "download_batch ?w gpx_client (downloaded_ids (gpx_folder archive_state)) [''333'']
      archive_state = Some (Inr (), ?s1)"
    by (simp add: download_batch_eq t b record_call_def)
  have m: "''111'' \<in> local_id_set [''111.gpx'', ''222.gpx'']"
    unfolding set_downloaded_ids [symmetric] by (simp add: downloaded_ids_def)
  note T1 = archived_ids_are_not_downloaded_again [OF r, of "[''111.gpx'', ''222.gpx'']"
      "[''111'', ''333'']" gpx_client archive_state "Inr ()" ?s1]
  note T2 = archived_ids_are_not_downloaded_again [OF r, of "[''111.gpx'', ''222.gpx'']"
      "[''333'']" gpx_client archive_state "Inr ()" ?s1]
  have one: "''111'' \<notin> set (to_generate_garmin_ids (set_order ?w) [''111'', ''333'']
        (downloaded_ids [''111.gpx'', ''222.gpx'']))"
    using T1 m by blast
  have two: "to_generate_garmin_ids (set_order ?w) [''333'']
        (downloaded_ids (gpx_folder ?s1)) = []"
    using T2 ft pl dw run by blast
  show ?thesis
    using r run one two by simp
qed

text \<open>
  The claim as first stated fails when a download of the first run fails: nothing is
  written for that identifier, and the second run of the full synchronisation, with
  nothing new on the remote side, requests the same download again.
\<close>

theorem failed_download_is_repeated:
  "download_new_activities (remote_world [numbered ''running'' 111] [''111'']) gpx_client fresh_state =
     Some (Inr (), \<lparr>is_login = True, calls = sync_calls, gpx_folder = []\<rparr>)
   \<and> download_new_activities (remote_world [numbered ''running'' 111] [''111'']) gpx_client
       \<lparr>is_login = False, calls = sync_calls, gpx_folder = []\<rparr> =
     Some (Inr (), \<lparr>is_login = True, calls = sync_calls @ sync_calls, gpx_folder = []\<rparr>)
   \<and> count_list (sync_calls @ sync_calls) (Get (Download_export ''gpx'' ''111'')) = 2"
proof -
  let ?w = "remote_world [numbered ''running'' 111] [''111'']"
  have id: "ids_of [\<lparr>activityId = Some (JInt 111), typeKey = Some ''running''\<rparr>] = [''111'']"
    by (simp add: ids_of_def dict_get_activityId_def str_int_def str_nat.simps digit_chr_def)
  have l: "get_activity_id_list ?w gpx_client 0 st =
      Some (Inr [''111''], st\<lparr>calls := calls st @ [Get (Activities_search 0 1 False)]\<rparr>)"
    if "is_login st" for st
    using that
    by (subst get_activity_id_list.simps)
      (simp add: get_activities_served [OF remote_world_serves] gpx_client_def recent_client_def
        activities_url_def numbered_def id)
  have t: "to_generate_garmin_ids (set_order ?w) [''111''] (downloaded_ids []) = [''111'']"
    by (simp add: to_generate_garmin_ids_def remote_world_def downloaded_ids_def)
  have run: "download_new_activities ?w gpx_client \<lparr>is_login = b, calls = cs, gpx_folder = []\<rparr> =
     Some (Inr (), \<lparr>is_login = True, calls = cs @ sync_calls, gpx_folder = []\<rparr>)" for b cs
    by (simp add: download_new_activities_def login_remote_world l download_batch_eq t
        after_batch_def save_broken record_call_def sync_calls_def)
  have c: "count_list (sync_calls @ sync_calls) (Get (Download_export ''gpx'' ''111'')) = 2"
    by (simp add: sync_calls_def)
  show ?thesis
    using run [of False "[]"] run [of False sync_calls] c by (simp add: fresh_state_def)
qed

text \<open>
  The amended claim says nothing of the zipped format.  There the archive members keep the
  names the remote service gave them, and a download that succeeded is scheduled again when
  no member has the identifier as its stem.
\<close>

lemma zipped_download_is_repeated:
  "download_batch (remote_world [] []) fit_client (downloaded_ids []) [''111''] logged_in_state =
     Some (Inr (),
       \<lparr>is_login = True,
        calls = [Get (Download_files ''111''), Extract ''111_ACTIVITY.fit'',
                 Make_activities_file_only, Aclose],
        gpx_folder = [''111_ACTIVITY.fit'']\<rparr>)
   \<and> to_generate_garmin_ids (set_order (remote_world [] [])) [''111'']
        (downloaded_ids [''111_ACTIVITY.fit'']) = [''111'']"
proof -
  let ?w = "remote_world [] []"
  have t: "to_generate_garmin_ids (set_order ?w) [''111''] (downloaded_ids []) = [''111'']"
    by (simp add: to_generate_garmin_ids_def remote_world_def downloaded_ids_def)
  have s: "save_garmin_activity ?w fit_client ''111'' logged_in_state =
      (Inr (), \<lparr>is_login = True,
        calls = [Get (Download_files ''111''), Extract ''111_ACTIVITY.fit''],
        gpx_folder = [''111_ACTIVITY.fit'']\<rparr>)"
    by (simp add: save_garmin_activity_def download_and_store_def download_activity_def
        add_entry_def perform_def download_url_def remote_world_def remote_reply_def
        fit_client_def gpx_client_def recent_client_def plain_response_def httpx_raises_def
        logged_in_state_def)
  have b: "after_batch ?w fit_client [''111''] logged_in_state =
      \<lparr>is_login = True,
        calls = [Get (Download_files ''111''), Extract ''111_ACTIVITY.fit''],
        gpx_folder = [''111_ACTIVITY.fit'']\<rparr>"
    by (simp add: after_batch_def s)
  have u: "to_generate_garmin_ids (set_order ?w) [''111''] (downloaded_ids [''111_ACTIVITY.fit''])
      = [''111'']"
    by (simp add: to_generate_garmin_ids_def remote_world_def downloaded_ids_def)
  show ?thesis
    using u by (simp add: download_batch_eq t b record_call_def)
qed

subsection \<open>Upload\<close>

text \<open>
  Claim C8, as amended.  When the \<open>post\<close> of a file raises, the exception is printed and
  the loop goes on with the remaining files.  When the \<open>post\<close> returns a response from
  which no \<open>detailedImportResult\<close> can be read, \<open>Exception("failed to upload")\<close> is raised
  and the remaining files are not uploaded.  When a file has been uploaded (the response
  lists a success) and the correction of its type fails, \<open>upload_activities\<close> raises: the
  loop ends with an exception right after the \<open>put\<close>.
\<close>

theorem upload_failure_asymmetry:
  "(reply w (calls st) (Post_upload file) = Raised \<longrightarrow>
      upload_loop w ((file, garmin_type) # files) st =
        upload_loop w files (st\<lparr>calls := calls st @ [Post_upload file, Print_exception]\<rparr>))
   \<and> (reply w (calls st) (Post_upload file) = Returned res
        \<and> detailedImportResult res = None \<longrightarrow>
      upload_loop w ((file, garmin_type) # files) st =
        (Inl FailedToUpload, st\<lparr>calls := calls st @ [Post_upload file, Print_exception]\<rparr>))
   \<and> (reply w (calls st) (Post_upload file) = Returned res
        \<and> detailedImportResult res = Some (activity_id # others)
        \<and> put_fails w (calls st @ [Post_upload file]) activity_id garmin_type \<longrightarrow>
      isl (fst (upload_loop w ((file, garmin_type) # files) st))
      \<and> calls (snd (upload_loop w ((file, garmin_type) # files) st)) =
          calls st @ [Post_upload file, Put_activity activity_id garmin_type]
      \<and> (is_login st \<longrightarrow>
          upload_activities w ((file, garmin_type) # files) st =
            upload_loop w ((file, garmin_type) # files) st))"
proof (intro conjI impI)
  assume "reply w (calls st) (Post_upload file) = Raised"
  then show "upload_loop w ((file, garmin_type) # files) st =
        upload_loop w files (st\<lparr>calls := calls st @ [Post_upload file, Print_exception]\<rparr>)"
    by (simp add: perform_def record_call_def)
next
  assume "reply w (calls st) (Post_upload file) = Returned res
        \<and> detailedImportResult res = None"
  then show "upload_loop w ((file, garmin_type) # files) st =
        (Inl FailedToUpload, st\<lparr>calls := calls st @ [Post_upload file, Print_exception]\<rparr>)"
    by (simp add: perform_def record_call_def)
next
  assume a: "reply w (calls st) (Post_upload file) = Returned res
        \<and> detailedImportResult res = Some (activity_id # others)
        \<and> put_fails w (calls st @ [Post_upload file]) activity_id garmin_type"
  then have e: "upload_loop w ((file, garmin_type) # files) st =
      ((case reply w (calls st @ [Post_upload file]) (Put_activity activity_id garmin_type) of
          Raised \<Rightarrow> Inl RequestError | Returned r \<Rightarrow> Inl HTTPStatusError),
       st\<lparr>calls := calls st @ [Post_upload file, Put_activity activity_id garmin_type]\<rparr>)"
    by (simp add: perform_def put_fails_def split: outcome.splits)
  show "isl (fst (upload_loop w ((file, garmin_type) # files) st))"
    unfolding e by (simp split: outcome.splits)
  show "calls (snd (upload_loop w ((file, garmin_type) # files) st)) =
          calls st @ [Post_upload file, Put_activity activity_id garmin_type]"
    unfolding e by simp
  assume l: "is_login st"
  obtain x s' where e': "upload_loop w ((file, garmin_type) # files) st = (Inl x, s')"
    using e by (cases "reply w (calls st @ [Post_upload file]) (Put_activity activity_id garmin_type)")
      simp_all
  show "upload_activities w ((file, garmin_type) # files) st =
            upload_loop w ((file, garmin_type) # files) st"
    using l e' by (simp add: upload_activities_def del: upload_loop.simps)
qed

theorem upload_failure_asymmetry_witness:
  "upload_loop upload_world [(''unreachable'', ''running''), (''track'', ''running'')] logged_in_state =
     (Inr (), logged_in_state\<lparr>calls := [Post_upload ''unreachable'', Print_exception,
        Post_upload ''track'', Put_activity (JInt 7) ''running'']\<rparr>)
   \<and> upload_loop upload_world [(''rejected'', ''running''), (''track'', ''running'')] logged_in_state =
     (Inl FailedToUpload, logged_in_state\<lparr>calls := [Post_upload ''rejected'', Print_exception]\<rparr>)
   \<and> upload_activities upload_world [(''track'', ''hiking''), (''track'', ''running'')] logged_in_state =
     (Inl HTTPStatusError, logged_in_state\<lparr>calls := [Post_upload ''track'',
        Put_activity (JInt 7) ''hiking'']\<rparr>)"
proof -
  let ?w = "upload_world"
  let ?res = "plain_response\<lparr>detailedImportResult := Some [JInt 7]\<rparr>"
  let ?rej = "plain_response\<lparr>status_code := 500\<rparr>"
  have 1: "reply ?w (calls logged_in_state) (Post_upload ''unreachable'') = Raised"
    by (simp add: upload_world_def upload_reply_def)
  have 2: "upload_loop ?w [(''track'', ''running'')]
       (logged_in_state\<lparr>calls := calls logged_in_state @ [Post_upload ''unreachable'', Print_exception]\<rparr>) =
     (Inr (), logged_in_state\<lparr>calls := [Post_upload ''unreachable'', Print_exception,
        Post_upload ''track'', Put_activity (JInt 7) ''running'']\<rparr>)"
    by (simp add: perform_def upload_world_def upload_reply_def plain_response_def
        logged_in_state_def httpx_raises_def)
  have 3: "reply ?w (calls logged_in_state) (Post_upload ''track'') = Returned ?res
      \<and> detailedImportResult ?res = Some (JInt 7 # [])
      \<and> put_fails ?w (calls logged_in_state @ [Post_upload ''track'']) (JInt 7) ''hiking''"
    by (simp add: upload_world_def upload_reply_def put_fails_def plain_response_def httpx_raises_def)
  have 4: "is_login logged_in_state" by (simp add: logged_in_state_def)
  have 5: "upload_loop ?w [(''track'', ''hiking''), (''track'', ''running'')] logged_in_state =
     (Inl HTTPStatusError, logged_in_state\<lparr>calls := [Post_upload ''track'',
        Put_activity (JInt 7) ''hiking'']\<rparr>)"
    by (simp add: perform_def upload_world_def upload_reply_def plain_response_def
        logged_in_state_def httpx_raises_def)
  have 6: "reply ?w (calls logged_in_state) (Post_upload ''rejected'') = Returned ?rej
      \<and> detailedImportResult ?rej = None"
    by (simp add: upload_world_def upload_reply_def plain_response_def)
  note A = upload_failure_asymmetry [of ?w logged_in_state "''unreachable''" "''running''"
      "[(''track'', ''running'')]"]
  note B = upload_failure_asymmetry [of ?w logged_in_state "''track''" "''hiking''"
      "[(''track'', ''running'')]" ?res "JInt 7" "[]"]
  note C = upload_failure_asymmetry [of ?w logged_in_state "''rejected''" "''running''"
      "[(''track'', ''running'')]" ?rej]
  have a: "upload_loop ?w [(''unreachable'', ''running''), (''track'', ''running'')] logged_in_state =
     (Inr (), logged_in_state\<lparr>calls := [Post_upload ''unreachable'', Print_exception,
        Post_upload ''track'', Put_activity (JInt 7) ''running'']\<rparr>)"
    using A 1 2 by simp
  have b: "upload_activities ?w [(''track'', ''hiking''), (''track'', ''running'')] logged_in_state =
      upload_loop ?w [(''track'', ''hiking''), (''track'', ''running'')] logged_in_state"
    using B 3 4 by blast
  have c: "upload_loop ?w [(''rejected'', ''running''), (''track'', ''running'')] logged_in_state =
     (Inl FailedToUpload, logged_in_state\<lparr>calls := calls logged_in_state @
        [Post_upload ''rejected'', Print_exception]\<rparr>)"
    using C 6 by blast
  show ?thesis using a b c 5 by (simp add: logged_in_state_def)
qed

text \<open>
  The claim as first stated fails when the upload request is answered with an error
  response (status 500, no import result): \<open>upload_activities\<close> raises
  \<open>Exception("failed to upload")\<close>, the second file is never posted and the client is not
  closed.
\<close>

theorem upload_error_response_is_fatal:
  "upload_activities upload_world [(''rejected'', ''running''), (''track'', ''running'')]
      logged_in_state =
     (Inl FailedToUpload,
      \<lparr>is_login = True, calls = [Post_upload ''rejected'', Print_exception], gpx_folder = []\<rparr>)"
  by (simp add: upload_activities_def perform_def record_call_def upload_world_def
      upload_reply_def plain_response_def logged_in_state_def)

subsection \<open>The admission protocol and the result of the call agree\<close>

text \<open>
  The protocol can bring every task past the block exactly when
  \<open>gather_with_concurrency\<close> returns: always with a positive limit, and with the limit 0
  only for an empty list of tasks.
\<close>

lemma no_step_without_permit: "\<not> sem_task_step (gather_start 0 tasks) s"
proof
  assume "sem_task_step (gather_start 0 tasks) s"
  then show False
    by (cases rule: sem_task_step.cases) (simp_all add: gather_start_def)
qed

lemma stuck_without_permit:
  "sem_task_step\<^sup>*\<^sup>* (gather_start 0 tasks) s \<Longrightarrow> s = gather_start 0 tasks"
  by (erule converse_rtranclpE) (simp_all add: no_step_without_permit)

lemma one_task_through:
  assumes "0 < n"
  shows "sem_task_step\<^sup>*\<^sup>*
     \<lparr>sem_value = n, phases = replicate a Finished @ Waiting # replicate b Waiting\<rparr>
     \<lparr>sem_value = n, phases = replicate (Suc a) Finished @ replicate b Waiting\<rparr>"
proof -
  let ?s0 = "\<lparr>sem_value = n, phases = replicate a Finished @ Waiting # replicate b Waiting\<rparr>"
  let ?s1 = "\<lparr>sem_value = n - 1, phases = replicate a Finished @ Running # replicate b Waiting\<rparr>"
  let ?s2 = "\<lparr>sem_value = n, phases = replicate a Finished @ Finished # replicate b Waiting\<rparr>"
  have u: "(replicate a Finished @ x # replicate b Waiting)[a := y] =
      replicate a Finished @ y # replicate b Waiting" for x y
    using list_update_length [of "replicate a Finished" x "replicate b Waiting" y] by simp
  have n: "(replicate a Finished @ x # replicate b Waiting) ! a = x" for x
    using nth_append_length [of "replicate a Finished" x "replicate b Waiting"] by simp
  have 1: "sem_task_step ?s0 ?s1"
    using acquire [of a ?s0] assms by (simp add: u n)
  have 2: "sem_task_step ?s1 ?s2"
    using release [of a ?s1] assms by (simp add: u n)
  have e: "replicate (Suc a) Finished @ replicate b Waiting =
      replicate a Finished @ Finished # replicate b Waiting"
    by (simp add: replicate_append_same)
  show ?thesis
    unfolding e using 1 2 by (meson rtranclp.rtrancl_into_rtrancl r_into_rtranclp)
qed

lemma all_tasks_through:
  assumes "0 < n"
  shows "sem_task_step\<^sup>*\<^sup>*
     \<lparr>sem_value = n, phases = replicate a Finished @ replicate b Waiting\<rparr>
     \<lparr>sem_value = n, phases = replicate (a + b) Finished\<rparr>"
proof (induction b arbitrary: a)
  case 0
  show ?case by simp
next
  case (Suc b)
  have "sem_task_step\<^sup>*\<^sup>*
     \<lparr>sem_value = n, phases = replicate a Finished @ replicate (Suc b) Waiting\<rparr>
     \<lparr>sem_value = n, phases = replicate (Suc a) Finished @ replicate b Waiting\<rparr>"
    using one_task_through [OF assms, of a b] by simp
  then show ?case
    using Suc.IH [of "Suc a"] by simp
qed

lemma protocol_completes_iff_gather_returns:
  "sem_task_step\<^sup>*\<^sup>* (gather_start n tasks) (gather_done n tasks)
     = (gather_with_concurrency (int n) (map f tasks) st \<noteq> None)"
proof (cases "n = 0")
  case True
  have "gather_done 0 tasks = gather_start 0 tasks \<longleftrightarrow> tasks = []"
    by (cases tasks) (simp_all add: gather_done_def gather_start_def)
  then have "sem_task_step\<^sup>*\<^sup>* (gather_start 0 tasks) (gather_done 0 tasks) \<longleftrightarrow> tasks = []"
    using stuck_without_permit [of tasks "gather_done 0 tasks"] by auto
  then show ?thesis
    using True by (simp add: gather_with_concurrency_def)
next
  case False
  have "sem_task_step\<^sup>*\<^sup>* (gather_start n tasks) (gather_done n tasks)"
    using all_tasks_through [of n 0 "length tasks"] False
    by (simp add: gather_start_def gather_done_def map_replicate_const)
  then show ?thesis
    using False by (simp add: gather_with_concurrency_def)
qed

end
